theory Spec2Isabelle
  imports Main "HOL-Library.AList"
begin

section \<open>Errors and the data model of interfaces/types.ts\<close>

text \<open>
  A thrown JavaScript \<open>Error\<close> is a value carrying its message; a function that can
  throw returns \<open>error + 'a\<close> (or \<open>error option\<close> when it returns nothing).
\<close>

datatype error = Error (message: string)

text \<open>
  \<open>SelectorType\<close> is the string union of types.ts. The values arrive as JSON and are not
  validated, so a selector whose type is outside the union is \<open>St_unknown\<close>, and a
  selector without a type field has \<open>sel_type = None\<close>.
\<close>

datatype SelectorType =
  St_id | St_name | St_css | St_xpath | St_tagName | St_className | St_linkText
  | St_unknown string

record Selector =
  sel_type :: "SelectorType option"
  sel_value :: string

datatype TestStatus = NOT_RUN | RUNNING | PASSED | FAILED | BLOCKED | SKIPPED

datatype Action =
  A_navigate | A_click | A_type | A_select | A_check | A_uncheck | A_clear | A_submit
  | A_hover | A_wait | A_screenshot | A_assert

text \<open>The string an action has in the source, as template strings print it.\<close>

fun action_name :: "Action \<Rightarrow> string" where
  "action_name A_navigate = ''navigate''"
| "action_name A_click = ''click''"
| "action_name A_type = ''type''"
| "action_name A_select = ''select''"
| "action_name A_check = ''check''"
| "action_name A_uncheck = ''uncheck''"
| "action_name A_clear = ''clear''"
| "action_name A_submit = ''submit''"
| "action_name A_hover = ''hover''"
| "action_name A_wait = ''wait''"
| "action_name A_screenshot = ''screenshot''"
| "action_name A_assert = ''assert''"

datatype AssertionType =
  As_elementExists | As_elementVisible | As_elementEnabled | As_textEquals | As_textContains
  | As_attributeEquals | As_attributeContains | As_urlEquals | As_urlContains | As_pageTitle

fun assertion_name :: "AssertionType \<Rightarrow> string" where
  "assertion_name As_elementExists = ''elementExists''"
| "assertion_name As_elementVisible = ''elementVisible''"
| "assertion_name As_elementEnabled = ''elementEnabled''"
| "assertion_name As_textEquals = ''textEquals''"
| "assertion_name As_textContains = ''textContains''"
| "assertion_name As_attributeEquals = ''attributeEquals''"
| "assertion_name As_attributeContains = ''attributeContains''"
| "assertion_name As_urlEquals = ''urlEquals''"
| "assertion_name As_urlContains = ''urlContains''"
| "assertion_name As_pageTitle = ''pageTitle''"

text \<open>
  Optional fields (\<open>value?\<close>, \<open>timeout?\<close>, \<open>selector?\<close>, \<open>testData?\<close>) are options, \<open>None\<close> for
  \<open>undefined\<close>. \<open>Step.selector\<close> is declared mandatory, but the runners test it for
  absence, so it is an option too. Fields no runner reads (\<open>stepNumber\<close>,
  \<open>expectedResult\<close>, \<open>description\<close>, \<open>testCaseId\<close>, names, priorities, dates) are left out.
\<close>

record StepTestData =
  td_valid :: "(string \<rightharpoonup> string) option"
  td_invalid :: "(string \<rightharpoonup> string) option"

record Step =
  step_id :: string
  step_action :: Action
  step_selector :: "Selector option"
  step_value :: "string option"
  step_timeout :: "int option"
  waitForNavigation :: bool
  step_testData :: "StepTestData option"
  useValidData :: bool

record Assertion =
  assertion_id :: string
  assertionType :: AssertionType
  assertion_selector :: "Selector option"
  expectedValue :: "string option"

record TestCase =
  tc_id :: string
  steps :: "Step list"
  assertions :: "Assertion list"
  dependsOn :: "string list option"

record TestSuite =
  suite_id :: string
  testCases :: "TestCase list"

text \<open>
  Execution records. Times are milliseconds since the epoch (the source stores ISO strings
  and converts them back with \<open>getTime\<close>); an identifier built from \<open>Date.now()\<close> is the
  pair of its prefix and the time.
\<close>

record StepLog =
  stepId :: string
  step_success :: bool
  step_error :: "string option"
  step_timestamp :: int

record AssertionLog =
  assertionId :: string
  assertion_success :: bool
  assertion_error :: "string option"
  assertion_timestamp :: int

record TestRun =
  run_id :: "string \<times> int"
  testCaseId :: string
  status :: TestStatus
  startedAt :: int
  completedAt :: "int option"
  duration :: "int option"
  errorMessage :: "string option"
  screenshot :: "string option"
  log_steps :: "StepLog list"
  log_assertions :: "AssertionLog list"
  log_message :: "string option"

record TestSuiteRun =
  suiteRun_id :: "string \<times> int"
  testSuiteId :: string
  suite_status :: TestStatus
  suite_startedAt :: int
  suite_completedAt :: "int option"
  suite_duration :: "int option"
  totalTests :: nat
  passedTests :: nat
  failedTests :: nat
  skippedTests :: nat
  blockedTests :: nat
  suite_testRuns :: "TestRun list"

section \<open>The browser driver\<close>

text \<open>
  Playwright, the clock and the file system are outside the program. They are a parameter:
  a record of operations over a world \<open>'w\<close> of any type, each returning its outcome and the
  world after it. \<open>Some e\<close> or \<open>Inl e\<close> is the operation throwing \<open>e\<close>. Only one page is
  open at a time, so the page handle is part of the world. \<open>query\<close> is \<open>page.$\<close>, true
  when it finds an element, and \<open>elementText\<close> is \<open>textContent\<close> on the element found. A
  file path is the pair of the name and the time it is built from.
\<close>

datatype WaitState = Wait_default | Wait_visible | Wait_attached

record 'w driver =
  now :: "'w \<Rightarrow> int"
  launch :: "'w \<Rightarrow> error option \<times> 'w"
  newPage :: "'w \<Rightarrow> error option \<times> 'w"
  closePage :: "'w \<Rightarrow> error option \<times> 'w"
  goto :: "string option \<Rightarrow> 'w \<Rightarrow> error option \<times> 'w"
  click :: "string \<Rightarrow> 'w \<Rightarrow> error option \<times> 'w"
  fill :: "string \<Rightarrow> string option \<Rightarrow> 'w \<Rightarrow> error option \<times> 'w"
  selectOption :: "string \<Rightarrow> string \<Rightarrow> 'w \<Rightarrow> error option \<times> 'w"
  waitForTimeout :: "int \<Rightarrow> 'w \<Rightarrow> error option \<times> 'w"
  waitForLoadState :: "'w \<Rightarrow> error option \<times> 'w"
  waitForSelector :: "string \<Rightarrow> WaitState \<Rightarrow> 'w \<Rightarrow> error option \<times> 'w"
  textContent :: "string \<Rightarrow> 'w \<Rightarrow> (error + string option) \<times> 'w"
  query :: "string \<Rightarrow> 'w \<Rightarrow> (error + bool) \<times> 'w"
  elementText :: "string \<Rightarrow> 'w \<Rightarrow> (error + string option) \<times> 'w"
  pageUrl :: "'w \<Rightarrow> string"
  screenshot_png :: "'w \<Rightarrow> (error + string) \<times> 'w"
  mkdirs :: "'w \<Rightarrow> error option \<times> 'w"
  screenshotFile :: "string \<times> int \<Rightarrow> 'w \<Rightarrow> error option \<times> 'w"
  readFile :: "string \<times> int \<Rightarrow> 'w \<Rightarrow> (error + string) \<times> 'w"
  writeLog :: "string \<times> int \<Rightarrow> TestRun \<Rightarrow> 'w \<Rightarrow> error option \<times> 'w"

text \<open>
  The instance fields of the runner class \<open>WebCrawler\<close>: \<open>browser\<close> (here whether it is
  non-null), \<open>currentSuiteRun\<close> and the registry \<open>testRuns\<close>, with the world beside them.
\<close>

record 'w runner =
  env :: 'w
  browser :: bool
  currentSuiteRun :: "TestSuiteRun option"
  testRuns :: "string \<rightharpoonup> TestRun"

section \<open>JavaScript strings\<close>

text \<open>
  A string is the list of its UTF-16 code units, and a character is a code unit below
  U+0100 (so \<open>CHR 0xC9\<close> is the capital E with acute accent); \<open>length\<close> is the \<open>length\<close>
  of JavaScript. \<open>toLowerCase\<close> maps the capitals of that range, A to Z and U+00C0 to
  U+00DE without the multiplication sign U+00D7, to the code unit 32 above, and leaves
  every other code unit as it is. White space is what \<open>trim\<close> and the pattern \<open>\s\<close>
  accept in that range: tab, line feed, vertical tab, form feed, carriage return, space and
  no-break space.
\<close>

definition latin1Capitals :: string where
  "latin1Capitals =
     [CHR 0xC0, CHR 0xC1, CHR 0xC2, CHR 0xC3, CHR 0xC4, CHR 0xC5, CHR 0xC6,
      CHR 0xC7, CHR 0xC8, CHR 0xC9, CHR 0xCA, CHR 0xCB, CHR 0xCC, CHR 0xCD,
      CHR 0xCE, CHR 0xCF, CHR 0xD0, CHR 0xD1, CHR 0xD2, CHR 0xD3, CHR 0xD4,
      CHR 0xD5, CHR 0xD6, CHR 0xD8, CHR 0xD9, CHR 0xDA, CHR 0xDB, CHR 0xDC,
      CHR 0xDD, CHR 0xDE]"

definition latin1Smalls :: string where
  "latin1Smalls =
     [CHR 0xE0, CHR 0xE1, CHR 0xE2, CHR 0xE3, CHR 0xE4, CHR 0xE5, CHR 0xE6,
      CHR 0xE7, CHR 0xE8, CHR 0xE9, CHR 0xEA, CHR 0xEB, CHR 0xEC, CHR 0xED,
      CHR 0xEE, CHR 0xEF, CHR 0xF0, CHR 0xF1, CHR 0xF2, CHR 0xF3, CHR 0xF4,
      CHR 0xF5, CHR 0xF6, CHR 0xF8, CHR 0xF9, CHR 0xFA, CHR 0xFB, CHR 0xFC,
      CHR 0xFD, CHR 0xFE]"

definition lowerChar :: "char \<Rightarrow> char" where
  "lowerChar c =
     (case map_of (zip (''ABCDEFGHIJKLMNOPQRSTUVWXYZ'' @ latin1Capitals)
                       (''abcdefghijklmnopqrstuvwxyz'' @ latin1Smalls)) c of
        Some l \<Rightarrow> l
      | None \<Rightarrow> c)"

definition toLowerCase :: "string \<Rightarrow> string" where
  "toLowerCase s = map lowerChar s"

definition isWhitespace :: "char \<Rightarrow> bool" where
  "isWhitespace c =
     (c \<in> set [CHR 0x09, CHR 0x0A, CHR 0x0B, CHR 0x0C, CHR 0x0D, CHR '' '', CHR 0xA0])"

definition trim :: "string \<Rightarrow> string" where
  "trim s = rev (dropWhile isWhitespace (rev (dropWhile isWhitespace s)))"

text \<open>
  \<open>s.split(/\s+/)\<close>: \<open>splitWs [] False s\<close>. The first argument is the piece being read, the
  second tells whether the previous character was white space. A leading or trailing run
  of white space yields an empty piece, and the empty string yields one empty piece.
\<close>

fun splitWs :: "string \<Rightarrow> bool \<Rightarrow> string \<Rightarrow> string list" where
  "splitWs cur inSep [] = [cur]"
| "splitWs cur inSep (c # cs) =
     (if isWhitespace c
      then (if inSep then splitWs [] True cs else cur # splitWs [] True cs)
      else splitWs (cur @ [c]) False cs)"

text \<open>\<open>xs.join(sep)\<close>.\<close>

fun join :: "string \<Rightarrow> string list \<Rightarrow> string" where
  "join sep [] = []"
| "join sep [x] = x"
| "join sep (x # y # ys) = x @ sep @ join sep (y # ys)"

text \<open>\<open>s.includes(sub)\<close>.\<close>

fun str_includes :: "string \<Rightarrow> string \<Rightarrow> bool" where
  "str_includes [] sub = (sub = [])"
| "str_includes (c # cs) sub = (take (length sub) (c # cs) = sub \<or> str_includes cs sub)"

text \<open>A natural number in decimal, as a template string prints it.\<close>

fun string_of_nat :: "nat \<Rightarrow> string" where
  "string_of_nat n =
     (if n < 10 then [''0123456789'' ! n]
      else string_of_nat (n div 10) @ [''0123456789'' ! (n mod 10)])"

declare string_of_nat.simps [simp del]

text \<open>How a template string prints a value that may be \<open>undefined\<close> or \<open>null\<close>.\<close>

definition show_undefined :: "string option \<Rightarrow> string" where
  "show_undefined v = (case v of None \<Rightarrow> ''undefined'' | Some x \<Rightarrow> x)"

definition show_null :: "string option \<Rightarrow> string" where
  "show_null v = (case v of None \<Rightarrow> ''null'' | Some x \<Rightarrow> x)"

section \<open>services/runTScrawler.ts\<close>

text \<open>
  \<open>buildSelector\<close> of services/runTScrawler.ts: a switch with the cases \<open>id\<close>, \<open>css\<close>,
  \<open>xpath\<close> and a default. It reads \<open>selector.type\<close> without a guard, so an absent selector
  raises a TypeError.
\<close>

definition buildSelector :: "Selector option \<Rightarrow> error + string" where
  "buildSelector selector =
     (case selector of
        None \<Rightarrow> Inl (Error ''Cannot read properties of undefined (reading type)'')
      | Some sel \<Rightarrow>
          (case sel_type sel of
             Some St_id \<Rightarrow> Inr (''#'' @ sel_value sel)
           | Some St_css \<Rightarrow> Inr (sel_value sel)
           | Some St_xpath \<Rightarrow> Inr (''xpath='' @ sel_value sel)
           | _ \<Rightarrow> Inr (sel_value sel)))"

text \<open>\<open>initialize\<close>: launch the browser; a launch failure is logged and rethrown.\<close>

definition initialize :: "'w driver \<Rightarrow> 'w runner \<Rightarrow> error option \<times> 'w runner" where
  "initialize d s =
     (case launch d (env s) of
        (None, w) \<Rightarrow> (None, s\<lparr>env := w, browser := True\<rparr>)
      | (Some e, w) \<Rightarrow> (Some e, s\<lparr>env := w\<rparr>))"

text \<open>
  \<open>canRunTest\<close>: true when \<open>dependsOn\<close> is absent or empty; otherwise the loop returns
  false at the first dependency that has no run in the registry or whose run is not PASSED.
\<close>

fun dependenciesPassed :: "(string \<rightharpoonup> TestRun) \<Rightarrow> string list \<Rightarrow> bool" where
  "dependenciesPassed runs [] = True"
| "dependenciesPassed runs (dependencyId # rest) =
     (case runs dependencyId of
        None \<Rightarrow> False
      | Some dependencyRun \<Rightarrow>
          if status dependencyRun \<noteq> PASSED then False else dependenciesPassed runs rest)"

definition canRunTest :: "TestCase \<Rightarrow> 'w runner \<Rightarrow> bool" where
  "canRunTest testCase s =
     (case dependsOn testCase of
        None \<Rightarrow> True
      | Some deps \<Rightarrow> if length deps = 0 then True else dependenciesPassed (testRuns s) deps)"

definition updateSuiteRunStats :: "TestStatus \<Rightarrow> 'w runner \<Rightarrow> 'w runner" where
  "updateSuiteRunStats st s =
     (case currentSuiteRun s of
        None \<Rightarrow> s
      | Some r \<Rightarrow>
          s\<lparr>currentSuiteRun := Some
              (case st of
                 PASSED \<Rightarrow> r\<lparr>passedTests := passedTests r + 1\<rparr>
               | FAILED \<Rightarrow> r\<lparr>failedTests := failedTests r + 1\<rparr>
               | SKIPPED \<Rightarrow> r\<lparr>skippedTests := skippedTests r + 1\<rparr>
               | BLOCKED \<Rightarrow> r\<lparr>blockedTests := blockedTests r + 1\<rparr>
               | _ \<Rightarrow> r)\<rparr>)"

definition determineTestSuiteStatus :: "'w runner \<Rightarrow> TestStatus" where
  "determineTestSuiteStatus s =
     (case currentSuiteRun s of
        None \<Rightarrow> NOT_RUN
      | Some r \<Rightarrow>
          if failedTests r > 0 then FAILED
          else if passedTests r = totalTests r then PASSED
          else if blockedTests r > 0 then BLOCKED
          else FAILED)"

definition captureScreenshot :: "'w driver \<Rightarrow> 'w \<Rightarrow> (error + string) \<times> 'w" where
  "captureScreenshot d w =
     (case screenshot_png d w of
        (Inl e, w') \<Rightarrow> (Inl e, w')
      | (Inr png, w') \<Rightarrow> (Inr (''data:image/png;base64,'' @ png), w'))"

text \<open>
  \<open>executeStep\<close>: the selector is built first, for every action; \<open>step.value!\<close> is passed on
  as it is, absent or not; \<open>step.timeout || 5000\<close> takes 5000 for an absent or zero timeout.
\<close>

definition executeStep :: "'w driver \<Rightarrow> Step \<Rightarrow> 'w \<Rightarrow> error option \<times> 'w" where
  "executeStep d step w =
     (case buildSelector (step_selector step) of
        Inl e \<Rightarrow> (Some e, w)
      | Inr selector \<Rightarrow>
          (case step_action step of
             A_navigate \<Rightarrow> goto d (step_value step) w
           | A_click \<Rightarrow> click d selector w
           | A_type \<Rightarrow> fill d selector (step_value step) w
           | A_wait \<Rightarrow>
               waitForTimeout d
                 (case step_timeout step of None \<Rightarrow> 5000 | Some t \<Rightarrow> if t = 0 then 5000 else t) w
           | a \<Rightarrow> (Some (Error (''Unsupported action: '' @ action_name a)), w)))"

text \<open>
  \<open>executeAssertion\<close>: everything is inside \<open>if (assertion.selector)\<close>, and the switch has
  three cases and no default. \<open>content !== expectedValue\<close> compares a string or \<open>null\<close> with
  a string or \<open>undefined\<close>: it is false only for two equal strings.
\<close>

definition executeAssertion :: "'w driver \<Rightarrow> Assertion \<Rightarrow> 'w \<Rightarrow> error option \<times> 'w" where
  "executeAssertion d assertion w =
     (case assertion_selector assertion of
        None \<Rightarrow> (None, w)
      | Some sel \<Rightarrow>
          (case buildSelector (Some sel) of
             Inl e \<Rightarrow> (Some e, w)
           | Inr selector \<Rightarrow>
               (case assertionType assertion of
                  As_elementExists \<Rightarrow> waitForSelector d selector Wait_default w
                | As_elementVisible \<Rightarrow> waitForSelector d selector Wait_visible w
                | As_textEquals \<Rightarrow>
                    (case textContent d selector w of
                       (Inl e, w') \<Rightarrow> (Some e, w')
                     | (Inr content, w') \<Rightarrow>
                         if content = None \<or> content \<noteq> expectedValue assertion
                         then (Some (Error (''Text mismatch. Expected: ''
                                  @ show_undefined (expectedValue assertion)
                                  @ '', Found: '' @ show_null content)), w')
                         else (None, w'))
                | _ \<Rightarrow> (None, w))))"

text \<open>
  The step loop of \<open>runTestCase\<close>, on the run record under construction. A failing step
  takes a screenshot, logs the failure and rethrows; when the screenshot itself throws,
  that error leaves the handler before the log entry is pushed.
\<close>

fun runSteps :: "'w driver \<Rightarrow> Step list \<Rightarrow> TestRun \<Rightarrow> 'w \<Rightarrow> error option \<times> TestRun \<times> 'w" where
  "runSteps d [] testRun w = (None, testRun, w)"
| "runSteps d (step # rest) testRun w =
     (case executeStep d step w of
        (None, w1) \<Rightarrow>
          runSteps d rest
            (testRun\<lparr>log_steps := log_steps testRun @
               [\<lparr>stepId = step_id step, step_success = True, step_error = None,
                 step_timestamp = now d w1\<rparr>]\<rparr>) w1
      | (Some err, w1) \<Rightarrow>
          (case captureScreenshot d w1 of
             (Inl err2, w2) \<Rightarrow> (Some err2, testRun, w2)
           | (Inr shot, w2) \<Rightarrow>
               (Some err,
                testRun\<lparr>screenshot := Some shot,
                  log_steps := log_steps testRun @
                    [\<lparr>stepId = step_id step, step_success = False,
                      step_error = Some (message err), step_timestamp = now d w2\<rparr>]\<rparr>,
                w2)))"

text \<open>The assertion loop: a failing assertion sets \<open>assertionsFailed\<close> and the loop goes on.\<close>

fun runAssertions ::
  "'w driver \<Rightarrow> Assertion list \<Rightarrow> bool \<Rightarrow> TestRun \<Rightarrow> 'w \<Rightarrow> bool \<times> TestRun \<times> 'w" where
  "runAssertions d [] assertionsFailed testRun w = (assertionsFailed, testRun, w)"
| "runAssertions d (assertion # rest) assertionsFailed testRun w =
     (case executeAssertion d assertion w of
        (None, w1) \<Rightarrow>
          runAssertions d rest assertionsFailed
            (testRun\<lparr>log_assertions := log_assertions testRun @
               [\<lparr>assertionId = assertion_id assertion, assertion_success = True,
                 assertion_error = None, assertion_timestamp = now d w1\<rparr>]\<rparr>) w1
      | (Some err, w1) \<Rightarrow>
          runAssertions d rest True
            (testRun\<lparr>log_assertions := log_assertions testRun @
               [\<lparr>assertionId = assertion_id assertion, assertion_success = False,
                 assertion_error = Some (message err), assertion_timestamp = now d w1\<rparr>]\<rparr>) w1)"

text \<open>
  The \<open>try\<close> block of \<open>runTestCase\<close> up to the assignment of the status: open a page
  (\<open>this.browser!.newPage()\<close>, which throws on a null browser), run the steps, run the
  assertions, close the page.
\<close>

definition tryTestCase ::
  "'w driver \<Rightarrow> TestCase \<Rightarrow> TestRun \<Rightarrow> bool \<Rightarrow> 'w \<Rightarrow> error option \<times> TestRun \<times> 'w" where
  "tryTestCase d testCase testRun hasBrowser w =
     (if \<not> hasBrowser
      then (Some (Error ''Cannot read properties of null (reading newPage)''), testRun, w)
      else
        (case newPage d w of
           (Some e, w0) \<Rightarrow> (Some e, testRun, w0)
         | (None, w0) \<Rightarrow>
             (case runSteps d (steps testCase) testRun w0 of
                (Some e, testRun1, w1) \<Rightarrow> (Some e, testRun1, w1)
              | (None, testRun1, w1) \<Rightarrow>
                  (case runAssertions d (assertions testCase) False testRun1 w1 of
                     (assertionsFailed, testRun2, w2) \<Rightarrow>
                       (case closePage d w2 of
                          (Some e, w3) \<Rightarrow> (Some e, testRun2, w3)
                        | (None, w3) \<Rightarrow>
                            (None,
                             testRun2\<lparr>status := if assertionsFailed then FAILED else PASSED\<rparr>,
                             w3))))))"

text \<open>
  Registering a run: \<open>testRuns.set\<close>, then \<open>currentSuiteRun!.testRuns.push\<close>, which throws
  on a null \<open>currentSuiteRun\<close>.
\<close>

definition registerRun :: "string \<Rightarrow> TestRun \<Rightarrow> 'w runner \<Rightarrow> error option \<times> 'w runner" where
  "registerRun caseId testRun s =
     (let s1 = s\<lparr>testRuns := (testRuns s)(caseId \<mapsto> testRun)\<rparr> in
      case currentSuiteRun s1 of
        None \<Rightarrow> (Some (Error ''Cannot read properties of null (reading testRuns)''), s1)
      | Some r \<Rightarrow>
          (None, s1\<lparr>currentSuiteRun := Some (r\<lparr>suite_testRuns := suite_testRuns r @ [testRun]\<rparr>)\<rparr>))"

text \<open>
  \<open>runTestCase\<close>: the run record starts RUNNING (\<open>freshRun\<close>); the \<open>try\<close> block ends with the status and the
  statistics update, the \<open>catch\<close> block marks the run FAILED and counts a failure, the
  \<open>finally\<close> block stamps the end, and then the run is registered.
\<close>

definition freshRun :: "'w driver \<Rightarrow> TestCase \<Rightarrow> 'w runner \<Rightarrow> TestRun" where
  "freshRun d testCase s =
     \<lparr>run_id = (''testcase-'', now d (env s)), testCaseId = tc_id testCase,
      status = RUNNING, startedAt = now d (env s), completedAt = None, duration = None,
      errorMessage = None, screenshot = None, log_steps = [],
      log_assertions = [], log_message = None\<rparr>"

definition runTestCase :: "'w driver \<Rightarrow> TestCase \<Rightarrow> 'w runner \<Rightarrow> error option \<times> 'w runner" where
  "runTestCase d testCase s =
     (let testRun = freshRun d testCase s
      in case tryTestCase d testCase testRun (browser s) (env s) of
           (outcome, testRun1, w) \<Rightarrow>
             (let (testRun2, s1) =
                    (case outcome of
                       None \<Rightarrow> (testRun1, updateSuiteRunStats (status testRun1) (s\<lparr>env := w\<rparr>))
                     | Some e \<Rightarrow>
                         (testRun1\<lparr>status := FAILED, errorMessage := Some (message e)\<rparr>,
                          updateSuiteRunStats FAILED (s\<lparr>env := w\<rparr>)));
                  t1 = now d w;
                  testRun3 = testRun2\<lparr>completedAt := Some t1,
                               duration := Some (t1 - startedAt testRun2)\<rparr>
              in registerRun (tc_id testCase) testRun3 s1))"

definition recordBlockedTest :: "'w driver \<Rightarrow> TestCase \<Rightarrow> 'w runner \<Rightarrow> error option \<times> 'w runner" where
  "recordBlockedTest d testCase s =
     (let t = now d (env s);
          testRun = \<lparr>run_id = (''test-run-'', t), testCaseId = tc_id testCase,
                     status = BLOCKED, startedAt = t, completedAt = Some t, duration = Some 0,
                     errorMessage = None, screenshot = None, log_steps = [],
                     log_assertions = [],
                     log_message = Some ''Test blocked due to failed dependencies''\<rparr>
      in case registerRun (tc_id testCase) testRun s of
           (Some e, s1) \<Rightarrow> (Some e, s1)
         | (None, s1) \<Rightarrow> (None, updateSuiteRunStats BLOCKED s1))"

text \<open>The body of the loop of \<open>runTestSuite\<close>, and the loop.\<close>

definition runOrBlock :: "'w driver \<Rightarrow> TestCase \<Rightarrow> 'w runner \<Rightarrow> error option \<times> 'w runner" where
  "runOrBlock d testCase s =
     (if canRunTest testCase s then runTestCase d testCase s
      else recordBlockedTest d testCase s)"

fun runCases :: "'w driver \<Rightarrow> TestCase list \<Rightarrow> 'w runner \<Rightarrow> error option \<times> 'w runner" where
  "runCases d [] s = (None, s)"
| "runCases d (testCase # rest) s =
     (case runOrBlock d testCase s of
        (Some e, s1) \<Rightarrow> (Some e, s1)
      | (None, s1) \<Rightarrow> runCases d rest s1)"

text \<open>The fresh \<open>TestSuiteRun\<close> that \<open>runTestSuite\<close> starts with.\<close>

definition startSuiteRun :: "'w driver \<Rightarrow> TestSuite \<Rightarrow> 'w runner \<Rightarrow> 'w runner" where
  "startSuiteRun d testSuite s =
     s\<lparr>currentSuiteRun := Some
         \<lparr>suiteRun_id = (''testsuite-'', now d (env s)), testSuiteId = suite_id testSuite,
          suite_status = RUNNING, suite_startedAt = now d (env s),
          suite_completedAt = None, suite_duration = None,
          totalTests = length (testCases testSuite), passedTests = 0, failedTests = 0,
          skippedTests = 0, blockedTests = 0, suite_testRuns = []\<rparr>\<rparr>"

text \<open>
  The \<open>finally\<close> block of \<open>runTestSuite\<close>: end time, duration and the derived status, each
  under its own null test.
\<close>

definition finishSuiteRun :: "'w driver \<Rightarrow> 'w runner \<Rightarrow> 'w runner" where
  "finishSuiteRun d s =
     (let s1 = (case currentSuiteRun s of
                  None \<Rightarrow> s
                | Some r \<Rightarrow> s\<lparr>currentSuiteRun := Some (r\<lparr>suite_completedAt := Some (now d (env s))\<rparr>)\<rparr>);
          s2 = (case currentSuiteRun s1 of
                  None \<Rightarrow> s1
                | Some r \<Rightarrow>
                    s1\<lparr>currentSuiteRun := Some
                         (r\<lparr>suite_duration := Some
                              ((case suite_completedAt r of
                                  None \<Rightarrow> now d (env s1) | Some t \<Rightarrow> t)
                               - suite_startedAt r)\<rparr>)\<rparr>)
      in case currentSuiteRun s2 of
           None \<Rightarrow> s2
         | Some r \<Rightarrow>
             s2\<lparr>currentSuiteRun := Some (r\<lparr>suite_status := determineTestSuiteStatus s2\<rparr>)\<rparr>)"

text \<open>\<open>if (!this.browser) await this.initialize()\<close>.\<close>

definition ensureBrowser :: "'w driver \<Rightarrow> 'w runner \<Rightarrow> error option \<times> 'w runner" where
  "ensureBrowser d s = (if \<not> browser s then initialize d s else (None, s))"

text \<open>
  \<open>runTestSuite\<close>: the browser is launched if there is none, the cases run in list order,
  the \<open>finally\<close> block completes the suite run on every path, and an error of the \<open>try\<close>
  block is rethrown after it.
\<close>

definition runTestSuite ::
  "'w driver \<Rightarrow> TestSuite \<Rightarrow> 'w runner \<Rightarrow> (error + TestSuiteRun) \<times> 'w runner" where
  "runTestSuite d testSuite s =
     (let (outcome, s1) =
            (case ensureBrowser d (startSuiteRun d testSuite s) of
               (Some e, s0) \<Rightarrow> (Some e, s0)
             | (None, s0) \<Rightarrow> runCases d (testCases testSuite) s0);
          s2 = finishSuiteRun d s1
      in case outcome of
           Some e \<Rightarrow> (Inl e, s2)
         | None \<Rightarrow>
             (case currentSuiteRun s2 of
                None \<Rightarrow> (Inl (Error ''TestSuiteRun is null''), s2)
              | Some r \<Rightarrow> (Inr r, s2)))"

section \<open>routes/crawler.ts: the later revision of the test runner\<close>

text \<open>
  \<open>buildSelector\<close> as the runner classes of routes/crawler.ts have it: a guard for the
  absent selector and one case for each member of \<open>SelectorType\<close>.
\<close>

definition buildSelector_routes :: "Selector option \<Rightarrow> string" where
  \<open>buildSelector_routes selector =
     (case selector of
        None \<Rightarrow> ''''
      | Some sel \<Rightarrow>
          (case sel_type sel of
             Some St_id \<Rightarrow> ''#'' @ sel_value sel
           | Some St_name \<Rightarrow> ''[name="'' @ sel_value sel @ ''"]''
           | Some St_css \<Rightarrow> sel_value sel
           | Some St_xpath \<Rightarrow> ''xpath='' @ sel_value sel
           | Some St_linkText \<Rightarrow> ''text='' @ sel_value sel
           | Some St_className \<Rightarrow> ''.'' @ sel_value sel
           | Some St_tagName \<Rightarrow> sel_value sel
           | _ \<Rightarrow> sel_value sel))\<close>

text \<open>
  The definitions below follow the first runner class of routes/crawler.ts; the second one
  has the same \<open>executeStep\<close>, \<open>getValueFromTestData\<close>, \<open>captureScreenshot\<close>,
  \<open>saveTestLogs\<close> and \<open>runTestCase\<close>.

  \<open>getValueFromTestData\<close>: the fixture is looked up under \<open>step.value\<close> used as a property
  key (\<open>undefined\<close> becomes the key \<open>"undefined"\<close>), in \<open>valid\<close> or in \<open>invalid\<close> according to
  \<open>useValidData\<close>; a missing table, a missing key and an empty string all give \<open>null\<close>.
\<close>

definition lookupFixture :: "(string \<rightharpoonup> string) option \<Rightarrow> string \<Rightarrow> string option" where
  "lookupFixture table key =
     (case table of
        None \<Rightarrow> None
      | Some m \<Rightarrow> (case m key of None \<Rightarrow> None | Some v \<Rightarrow> if v = [] then None else Some v))"

definition getValueFromTestData :: "Step \<Rightarrow> string option" where
  "getValueFromTestData step =
     (case step_testData step of
        None \<Rightarrow> None
      | Some testData \<Rightarrow>
          if useValidData step
          then lookupFixture (td_valid testData) (show_undefined (step_value step))
          else lookupFixture (td_invalid testData) (show_undefined (step_value step)))"

text \<open>\<open>step.value || this.getValueFromTestData(step)\<close>: an empty literal counts as absent.\<close>

definition resolveValue :: "Step \<Rightarrow> string option" where
  "resolveValue step =
     (case step_value step of
        None \<Rightarrow> getValueFromTestData step
      | Some v \<Rightarrow> if v = [] then getValueFromTestData step else Some v)"

text \<open>
  \<open>executeStep\<close> of routes/crawler.ts. The \<open>console.log\<close> of the step is left out. After
  the action, \<open>waitForNavigation\<close> waits for the network to be idle.
\<close>

definition executeStep_routes :: "'w driver \<Rightarrow> Step \<Rightarrow> 'w \<Rightarrow> error option \<times> 'w" where
  "executeStep_routes d step w =
     (let selector = (case step_selector step of
                        None \<Rightarrow> []
                      | Some sel \<Rightarrow> buildSelector_routes (Some sel));
          val = resolveValue step;
          acted =
            (case step_action step of
               A_navigate \<Rightarrow>
                 goto d (Some (case val of None \<Rightarrow> pageUrl d w | Some v \<Rightarrow> v)) w
             | A_click \<Rightarrow> click d selector w
             | A_type \<Rightarrow>
                 (case val of
                    None \<Rightarrow>
                      (Some (Error (''No value provided for type action in step ''
                               @ step_id step)), w)
                  | Some v \<Rightarrow> fill d selector (Some v) w)
             | A_select \<Rightarrow>
                 (case val of
                    None \<Rightarrow>
                      (Some (Error (''No value provided for select action in step ''
                               @ step_id step)), w)
                  | Some v \<Rightarrow> selectOption d selector v w)
             | A_wait \<Rightarrow>
                 waitForTimeout d
                   (case step_timeout step of
                      None \<Rightarrow> 5000
                    | Some t \<Rightarrow> if t = 0 then 5000 else t) w
             | a \<Rightarrow> (Some (Error (''Unsupported action: '' @ action_name a)), w))
      in case acted of
           (Some e, w1) \<Rightarrow> (Some e, w1)
         | (None, w1) \<Rightarrow> if waitForNavigation step then waitForLoadState d w1 else (None, w1))"

text \<open>
  \<open>executeAssertion\<close> of the first runner class of routes/crawler.ts: four assertion types
  and a default that throws.
\<close>

definition executeAssertion_routes :: "'w driver \<Rightarrow> Assertion \<Rightarrow> 'w \<Rightarrow> error option \<times> 'w" where
  \<open>executeAssertion_routes d assertion w =
     (let selector = (case assertion_selector assertion of
                        None \<Rightarrow> []
                      | Some sel \<Rightarrow> buildSelector_routes (Some sel))
      in case assertionType assertion of
           As_elementExists \<Rightarrow> waitForSelector d selector Wait_attached w
         | As_elementVisible \<Rightarrow>
             (case waitForSelector d selector Wait_visible w of
                (Some e, w1) \<Rightarrow> (Some e, w1)
              | (None, w1) \<Rightarrow>
                  (case query d selector w1 of
                     (Inl e, w2) \<Rightarrow> (Some e, w2)
                   | (Inr False, w2) \<Rightarrow> (Some (Error (''Element not found: '' @ selector)), w2)
                   | (Inr True, w2) \<Rightarrow>
                       (case expectedValue assertion of
                          None \<Rightarrow> (None, w2)
                        | Some expected \<Rightarrow>
                            if expected = [] then (None, w2)
                            else
                              (case elementText d selector w2 of
                                 (Inl e, w3) \<Rightarrow> (Some e, w3)
                               | (Inr content, w3) \<Rightarrow>
                                   if map_option trim content \<noteq> Some (trim expected)
                                   then (Some (Error (''Text mismatch. Expected: "'' @ expected
                                            @ ''", Found: "'' @ show_null content @ ''"'')), w3)
                                   else (None, w3)))))
         | As_urlEquals \<Rightarrow>
             (if Some (pageUrl d w) \<noteq> expectedValue assertion
              then (Some (Error (''URL mismatch. Expected: ''
                       @ show_undefined (expectedValue assertion)
                       @ '', Found: '' @ pageUrl d w)), w)
              else (None, w))
         | As_textContains \<Rightarrow>
             (if expectedValue assertion = None \<or> expectedValue assertion = Some []
              then (Some (Error ''Expected value not provided for textContains assertion''), w)
              else
                (case textContent d selector w of
                   (Inl e, w1) \<Rightarrow> (Some e, w1)
                 | (Inr content, w1) \<Rightarrow>
                     if (case content of
                           None \<Rightarrow> True
                         | Some c \<Rightarrow> \<not> str_includes c (show_undefined (expectedValue assertion)))
                     then (Some (Error (''Text does not contain "''
                              @ show_undefined (expectedValue assertion)
                              @ ''". Found: "'' @ show_null content @ ''"'')), w1)
                     else (None, w1)))
         | a \<Rightarrow> (Some (Error (''Unsupported assertion type: '' @ assertion_name a)), w))\<close>

text \<open>
  \<open>captureScreenshot(page, testCaseId)\<close>: create the directories, take the screenshot into
  a file named after the case and the time, read the file back. Any failure is logged and
  rethrown.
\<close>

definition captureScreenshot_routes ::
  "'w driver \<Rightarrow> string \<Rightarrow> 'w \<Rightarrow> (error + string) \<times> 'w" where
  "captureScreenshot_routes d caseId w =
     (case mkdirs d w of
        (Some e, w1) \<Rightarrow> (Inl e, w1)
      | (None, w1) \<Rightarrow>
          (let filePath = (caseId, now d w1) in
           case screenshotFile d filePath w1 of
             (Some e, w2) \<Rightarrow> (Inl e, w2)
           | (None, w2) \<Rightarrow>
               (case readFile d filePath w2 of
                  (Inl e, w3) \<Rightarrow> (Inl e, w3)
                | (Inr png, w3) \<Rightarrow> (Inr (''data:image/png;base64,'' @ png), w3))))"

text \<open>\<open>saveTestLogs\<close>: create the directories and write the run as one JSON file.\<close>

definition saveTestLogs :: "'w driver \<Rightarrow> TestRun \<Rightarrow> 'w \<Rightarrow> error option \<times> 'w" where
  "saveTestLogs d testRun w =
     (case mkdirs d w of
        (Some e, w1) \<Rightarrow> (Some e, w1)
      | (None, w1) \<Rightarrow> writeLog d (testCaseId testRun, now d w1) testRun w1)"

fun runSteps_routes ::
  "'w driver \<Rightarrow> string \<Rightarrow> Step list \<Rightarrow> TestRun \<Rightarrow> 'w \<Rightarrow> error option \<times> TestRun \<times> 'w" where
  "runSteps_routes d caseId [] testRun w = (None, testRun, w)"
| "runSteps_routes d caseId (step # rest) testRun w =
     (case executeStep_routes d step w of
        (None, w1) \<Rightarrow>
          runSteps_routes d caseId rest
            (testRun\<lparr>log_steps := log_steps testRun @
               [\<lparr>stepId = step_id step, step_success = True, step_error = None,
                 step_timestamp = now d w1\<rparr>]\<rparr>) w1
      | (Some err, w1) \<Rightarrow>
          (case captureScreenshot_routes d caseId w1 of
             (Inl err2, w2) \<Rightarrow> (Some err2, testRun, w2)
           | (Inr shot, w2) \<Rightarrow>
               (Some err,
                testRun\<lparr>screenshot := Some shot,
                  log_steps := log_steps testRun @
                    [\<lparr>stepId = step_id step, step_success = False,
                      step_error = Some (message err), step_timestamp = now d w2\<rparr>]\<rparr>,
                w2)))"

fun runAssertions_routes ::
  "'w driver \<Rightarrow> Assertion list \<Rightarrow> bool \<Rightarrow> TestRun \<Rightarrow> 'w \<Rightarrow> bool \<times> TestRun \<times> 'w" where
  "runAssertions_routes d [] assertionsFailed testRun w = (assertionsFailed, testRun, w)"
| "runAssertions_routes d (assertion # rest) assertionsFailed testRun w =
     (case executeAssertion_routes d assertion w of
        (None, w1) \<Rightarrow>
          runAssertions_routes d rest assertionsFailed
            (testRun\<lparr>log_assertions := log_assertions testRun @
               [\<lparr>assertionId = assertion_id assertion, assertion_success = True,
                 assertion_error = None, assertion_timestamp = now d w1\<rparr>]\<rparr>) w1
      | (Some err, w1) \<Rightarrow>
          runAssertions_routes d rest True
            (testRun\<lparr>log_assertions := log_assertions testRun @
               [\<lparr>assertionId = assertion_id assertion, assertion_success = False,
                 assertion_error = Some (message err), assertion_timestamp = now d w1\<rparr>]\<rparr>) w1)"

text \<open>
  \<open>runTestCase\<close> of routes/crawler.ts opens the page before its \<open>try\<close>. The \<open>try\<close> block:
  steps, assertions, closing the page, the status.
\<close>

definition tryTestCase_routes ::
  "'w driver \<Rightarrow> TestCase \<Rightarrow> TestRun \<Rightarrow> 'w \<Rightarrow> error option \<times> TestRun \<times> 'w" where
  "tryTestCase_routes d testCase testRun w0 =
     (case runSteps_routes d (tc_id testCase) (steps testCase) testRun w0 of
        (Some e, testRun1, w1) \<Rightarrow> (Some e, testRun1, w1)
      | (None, testRun1, w1) \<Rightarrow>
          (case runAssertions_routes d (assertions testCase) False testRun1 w1 of
             (assertionsFailed, testRun2, w2) \<Rightarrow>
               (case closePage d w2 of
                  (Some e, w3) \<Rightarrow> (Some e, testRun2, w3)
                | (None, w3) \<Rightarrow>
                    (None,
                     testRun2\<lparr>status := if assertionsFailed then FAILED else PASSED\<rparr>,
                     w3))))"

text \<open>
  The \<open>catch\<close> block: the run is marked FAILED, then a screenshot is taken and the logs are
  saved, and only after both the failure is counted. An error of the screenshot or of the
  log file leaves the block.
\<close>

definition catchTestCase_routes ::
  "'w driver \<Rightarrow> TestCase \<Rightarrow> error \<Rightarrow> TestRun \<Rightarrow> 'w runner
     \<Rightarrow> error option \<times> TestRun \<times> 'w runner" where
  "catchTestCase_routes d testCase e testRun s =
     (let testRun1 = testRun\<lparr>status := FAILED, errorMessage := Some (message e)\<rparr> in
      case captureScreenshot_routes d (tc_id testCase) (env s) of
        (Inl e2, w1) \<Rightarrow> (Some e2, testRun1, s\<lparr>env := w1\<rparr>)
      | (Inr shot, w1) \<Rightarrow>
          (let testRun2 = testRun1\<lparr>screenshot := Some shot\<rparr> in
           case saveTestLogs d testRun2 w1 of
             (Some e3, w2) \<Rightarrow> (Some e3, testRun2, s\<lparr>env := w2\<rparr>)
           | (None, w2) \<Rightarrow> (None, testRun2, updateSuiteRunStats FAILED (s\<lparr>env := w2\<rparr>))))"

text \<open>
  The \<open>finally\<close> block: the end time, the duration, and the logs once more; an error of the
  log file replaces a pending one.
\<close>

definition finallyTestCase_routes ::
  "'w driver \<Rightarrow> error option \<Rightarrow> TestRun \<Rightarrow> 'w runner \<Rightarrow> error option \<times> TestRun \<times> 'w runner" where
  "finallyTestCase_routes d pending testRun s =
     (let t1 = now d (env s);
          testRun1 = testRun\<lparr>completedAt := Some t1, duration := Some (t1 - startedAt testRun)\<rparr>
      in case saveTestLogs d testRun1 (env s) of
           (Some e, w) \<Rightarrow> (Some e, testRun1, s\<lparr>env := w\<rparr>)
         | (None, w) \<Rightarrow> (pending, testRun1, s\<lparr>env := w\<rparr>))"

text \<open>
  \<open>runTestCase\<close> up to its last two statements, with the local \<open>testRun\<close> as it stands when
  the function is left, normally or by an error.
\<close>

definition executeTestCase_routes ::
  "'w driver \<Rightarrow> TestCase \<Rightarrow> 'w runner \<Rightarrow> error option \<times> TestRun \<times> 'w runner" where
  "executeTestCase_routes d testCase s =
     (let testRun = freshRun d testCase s
      in if \<not> browser s
         then (Some (Error ''Cannot read properties of null (reading newPage)''), testRun, s)
         else
           (case newPage d (env s) of
              (Some e, w0) \<Rightarrow> (Some e, testRun, s\<lparr>env := w0\<rparr>)
            | (None, w0) \<Rightarrow>
                (case (case tryTestCase_routes d testCase testRun w0 of
                         (None, testRun1, w1) \<Rightarrow>
                           (None, testRun1, updateSuiteRunStats (status testRun1) (s\<lparr>env := w1\<rparr>))
                       | (Some e, testRun1, w1) \<Rightarrow>
                           catchTestCase_routes d testCase e testRun1 (s\<lparr>env := w1\<rparr>)) of
                   (pending, testRun2, s1) \<Rightarrow> finallyTestCase_routes d pending testRun2 s1)))"

definition runTestCase_routes ::
  "'w driver \<Rightarrow> TestCase \<Rightarrow> 'w runner \<Rightarrow> error option \<times> 'w runner" where
  "runTestCase_routes d testCase s =
     (case executeTestCase_routes d testCase s of
        (Some e, testRun, s1) \<Rightarrow> (Some e, s1)
      | (None, testRun, s1) \<Rightarrow> registerRun (tc_id testCase) testRun s1)"

section \<open>services/crawler.ts: element discovery\<close>

definition MAX_RETRY_ATTEMPTS :: nat where
  "MAX_RETRY_ATTEMPTS = 3"

definition RECOVERY_DELAY :: nat where
  "RECOVERY_DELAY = 1000"

text \<open>
  The state of the discovery crawler as far as \<open>retryOperation\<close> touches it: the outside
  world \<open>world\<close> the wrapped operation acts on, the counter \<open>stats.errorCount\<close>, and the
  delays (in milliseconds) the crawler has waited on \<open>setTimeout\<close>, oldest first.
\<close>

record 'w crawler =
  world :: 'w
  errorCount :: nat
  delays :: "nat list"

text \<open>
  \<open>retryOperation(operation, retryCount = 0)\<close>: run the operation; on failure count the
  error, rethrow once \<open>retryCount >= MAX_RETRY_ATTEMPTS\<close>, otherwise wait
  \<open>RECOVERY_DELAY * (retryCount + 1)\<close> and recurse with \<open>retryCount + 1\<close>.
\<close>

function retryOperation ::
  "('w \<Rightarrow> (error + 'a) \<times> 'w) \<Rightarrow> nat \<Rightarrow> 'w crawler \<Rightarrow> (error + 'a) \<times> 'w crawler" where
  "retryOperation operation retryCount s =
     (let (r, w') = operation (world s) in
      case r of
        Inr v \<Rightarrow> (Inr v, s\<lparr>world := w'\<rparr>)
      | Inl err \<Rightarrow>
          (let s1 = s\<lparr>world := w', errorCount := errorCount s + 1\<rparr> in
           if retryCount \<ge> MAX_RETRY_ATTEMPTS then (Inl err, s1)
           else retryOperation operation (retryCount + 1)
                  (s1\<lparr>delays := delays s1 @ [RECOVERY_DELAY * (retryCount + 1)]\<rparr>)))"
  by pat_completeness auto
termination
  by (relation "measure (\<lambda>(operation, retryCount, s). MAX_RETRY_ATTEMPTS - retryCount)") auto

declare retryOperation.simps [simp del]

text \<open>
  An operation instrumented to record the outcome of each of its executions in the world,
  so that the executions \<open>retryOperation\<close> makes can be counted and inspected.
\<close>

definition logged ::
  "('w \<Rightarrow> (error + 'a) \<times> 'w) \<Rightarrow> (error + 'a) list \<times> 'w \<Rightarrow> (error + 'a) \<times> ((error + 'a) list \<times> 'w)" where
  "logged operation = (\<lambda>(log, w). case operation w of (r, w') \<Rightarrow> (r, (log @ [r], w')))"

text \<open>
  A \<open>Record<string, string>\<close> is the list of its own properties in the order of their
  creation. The assignment \<open>obj[key] = value\<close> of a string to a plain object is
  \<open>setProperty\<close>: it overwrites an existing property in place and appends a new one,
  except for the key \<open>__proto__\<close>, where it runs the setter inherited from
  \<open>Object.prototype\<close>, which ignores a string and creates no property.
\<close>

type_synonym attr_record = "(string \<times> string) list"

definition setProperty :: "string \<Rightarrow> string \<Rightarrow> attr_record \<Rightarrow> attr_record" where
  "setProperty key val obj = (if key = ''__proto__'' then obj else AList.update key val obj)"

text \<open>
  \<open>Object.entries\<close> lists the properties whose key is an array index (a decimal numeral
  without leading zero, below \<open>2^32 - 1\<close>) first, in ascending numeric order, and then the
  other properties in the order of their creation.
\<close>

definition digitsValue :: "string \<Rightarrow> nat" where
  "digitsValue key =
     foldl (\<lambda>n c. 10 * n + (case map_of (zip ''0123456789'' [0 ..< 10]) c of
                                Some v \<Rightarrow> v
                              | None \<Rightarrow> 0)) 0 key"

definition isArrayIndex :: "string \<Rightarrow> bool" where
  "isArrayIndex key =
     (key \<noteq> [] \<and> list_all (\<lambda>c. c \<in> set ''0123456789'') key \<and>
      (key = ''0'' \<or> take 1 key \<noteq> ''0'') \<and> digitsValue key < 4294967295)"

definition entries :: "attr_record \<Rightarrow> attr_record" where
  "entries obj =
     sort_key (\<lambda>(key, val). digitsValue key) (filter (\<lambda>(key, val). isArrayIndex key) obj)
     @ filter (\<lambda>(key, val). \<not> isArrayIndex key) obj"

text \<open>
  \<open>validateAttributes\<close>: copy the entries whose value is a string of length below 1000.
  Every value of an \<open>attr_record\<close> is a string, so the \<open>typeof\<close> test is always true.
\<close>

definition validateAttributes :: "attr_record \<Rightarrow> attr_record" where
  "validateAttributes attributes =
     foldl (\<lambda>validAttributes (key, val).
              if length val < 1000 then setProperty key val validAttributes
              else validAttributes)
       [] (entries attributes)"

text \<open>
  \<open>extractAttributes\<close>: \<open>element.evaluate\<close> either fails or yields the element's attribute
  nodes \<open>(name, value)\<close> in document order, which the page function collects into a record;
  the record then goes through \<open>validateAttributes\<close>.
\<close>

definition extractAttributes :: "error + (string \<times> string) list \<Rightarrow> error + attr_record" where
  "extractAttributes evaluated =
     (case evaluated of
        Inl e \<Rightarrow> Inl e
      | Inr el_attributes \<Rightarrow>
          Inr (validateAttributes
                 (foldl (\<lambda>attributes (name, val). setProperty name val attributes)
                    [] el_attributes)))"

text \<open>
  What the page function of \<open>generateUniqueSelector\<close> reads of a DOM element: \<open>id\<close>,
  \<open>tagName\<close>, \<open>getAttribute('name')\<close> (\<open>None\<close> for \<open>null\<close>), \<open>className\<close> (a string, or
  an object as on SVG elements), whether the element is \<open>document.body\<close>, the tag names of
  its previous element siblings from the nearest on, and \<open>parentElement\<close>.
\<close>

datatype class_prop = ClassString string | ClassObject

datatype element =
  Element (el_id: string) (tagName: string) (name_attr: "string option")
    (className: class_prop) (isBody: bool) (previousSiblings: "string list")
    (parentElement: "element option")

text \<open>
  The inner loop over \<open>previousElementSibling\<close>: the index starts at 1 and grows with each
  previous sibling of the same tag name.
\<close>

definition nthOfType :: "element \<Rightarrow> nat" where
  "nthOfType current =
     foldl (\<lambda>index siblingTag. if siblingTag = tagName current then index + 1 else index)
       1 (previousSiblings current)"

definition segment :: "element \<Rightarrow> string" where
  "segment current =
     toLowerCase (tagName current) @ '':nth-of-type('' @ string_of_nat (nthOfType current)
       @ '')''"

text \<open>
  The outer loop \<open>while (current !== document.body && current.parentElement)\<close>, with the
  path built so far as the second argument.
\<close>

fun positionalPath :: "element \<Rightarrow> string \<Rightarrow> string" where
  "positionalPath (Element i t n c b prev None) path = path"
| "positionalPath (Element i t n c b prev (Some parent)) path =
     (if b then path
      else positionalPath parent
             (segment (Element i t n c b prev (Some parent))
              @ (if path \<noteq> [] then '' > '' @ path else [])))"

definition positionalSelector :: "element \<Rightarrow> string" where
  "positionalSelector el =
     (let path = positionalPath el [] in
      if path \<noteq> [] then ''body > '' @ path else toLowerCase (tagName el))"

text \<open>
  The page function of \<open>generateUniqueSelector\<close>. The tests \<open>el.id\<close>,
  \<open>el.getAttribute('name')\<close> and \<open>el.className\<close> are truthiness tests: an empty string
  fails them.
\<close>

definition selectorInPage :: "element \<Rightarrow> string" where
  \<open>selectorInPage el =
     (if el_id el \<noteq> [] then ''#'' @ el_id el
      else
        (let tag = toLowerCase (tagName el) in
         if name_attr el \<noteq> None \<and> name_attr el \<noteq> Some []
         then tag @ ''[name="'' @ show_null (name_attr el) @ ''"]''
         else
           (case className el of
              ClassString cls \<Rightarrow>
                if cls \<noteq> [] then
                  (let classes = splitWs [] False (trim cls) in
                   if length classes > 0 then tag @ ''.'' @ join ''.'' classes
                   else positionalSelector el)
                else positionalSelector el
            | ClassObject \<Rightarrow> positionalSelector el)))\<close>

text \<open>
  \<open>generateUniqueSelector\<close>: \<open>evaluate\<close> is \<open>element.evaluate\<close> on the handle at hand, which
  fails (also when the page function itself throws) or gives the page function the
  element; like every driver operation it is taken to return. When the first evaluation
  throws, the handler evaluates a second time to read the tag name, and that evaluation can
  throw too.
\<close>

definition generateUniqueSelector ::
  "('w \<Rightarrow> (error + element) \<times> 'w) \<Rightarrow> 'w \<Rightarrow> (error + string) \<times> 'w" where
  "generateUniqueSelector evaluate w =
     (case evaluate w of
        (Inr el, w1) \<Rightarrow> (Inr (selectorInPage el), w1)
      | (Inl e, w1) \<Rightarrow>
          (case evaluate w1 of
             (Inr el, w2) \<Rightarrow> (Inr (toLowerCase (tagName el)), w2)
           | (Inl e2, w2) \<Rightarrow> (Inl e2, w2)))"

section \<open>Notions used in the statements\<close>

text \<open>The number of cases a suite run has counted so far.\<close>

definition counted :: "TestSuiteRun \<Rightarrow> nat" where
  "counted r = passedTests r + failedTests r + blockedTests r + skippedTests r"

text \<open>
  Executing steps one after the other with \<open>executeStep\<close>: the world after the last one
  when all succeed, \<open>None\<close> when one fails.
\<close>

fun execSteps :: "'w driver \<Rightarrow> Step list \<Rightarrow> 'w \<Rightarrow> 'w option" where
  "execSteps d [] w = Some w"
| "execSteps d (step # rest) w =
     (case executeStep d step w of
        (None, w1) \<Rightarrow> execSteps d rest w1
      | (Some e, w1) \<Rightarrow> None)"

text \<open>
  Evaluating assertions one after the other with \<open>executeAssertion\<close>: the outcome of each
  and the world after the last.
\<close>

fun evalAssertions :: "'w driver \<Rightarrow> Assertion list \<Rightarrow> 'w \<Rightarrow> error option list \<times> 'w" where
  "evalAssertions d [] w = ([], w)"
| "evalAssertions d (assertion # rest) w =
     (case executeAssertion d assertion w of
        (outcome, w1) \<Rightarrow>
          (case evalAssertions d rest w1 of (outcomes, w2) \<Rightarrow> (outcome # outcomes, w2)))"

text \<open>
  The elements the positional path has a segment for: the element and its ancestors, up
  to and without the first that is \<open>document.body\<close> or has no parent.
\<close>

fun pathElements :: "element \<Rightarrow> element list" where
  "pathElements (Element i t n c b prev None) = []"
| "pathElements (Element i t n c b prev (Some parent)) =
     (if b then [] else Element i t n c b prev (Some parent) # pathElements parent)"

text \<open>The dependencies of a case, none when \<open>dependsOn\<close> is absent.\<close>

definition dependencies :: "TestCase \<Rightarrow> string list" where
  "dependencies testCase = (case dependsOn testCase of None \<Rightarrow> [] | Some deps \<Rightarrow> deps)"

text \<open>
  The run record as the \<open>catch\<close> block of \<open>runTestCase\<close> in routes/crawler.ts leaves it
  after the error \<open>e\<close> and the screenshot \<open>shot\<close>, and as the \<open>finally\<close> block stamps it in
  the world \<open>w\<close>.
\<close>

definition failedRun :: "TestRun \<Rightarrow> error \<Rightarrow> string \<Rightarrow> TestRun" where
  "failedRun testRun e shot =
     testRun\<lparr>status := FAILED, errorMessage := Some (message e), screenshot := Some shot\<rparr>"

definition finishedRun :: "'w driver \<Rightarrow> TestRun \<Rightarrow> 'w \<Rightarrow> TestRun" where
  "finishedRun d testRun w =
     testRun\<lparr>completedAt := Some (now d w), duration := Some (now d w - startedAt testRun)\<rparr>"

section \<open>A scripted driver\<close>

text \<open>
  A driver for worked examples. Its world is the list of the calls made so far, and the
  clock shows their number. The selector \<open>#missing\<close> is never found, the address
  \<open>http://down\<close> cannot be reached, and an absent address or text is refused. The four
  flags tell whether launching the browser, closing a page, taking a screenshot and writing
  a log file succeed.
\<close>

definition scripted :: "bool \<Rightarrow> bool \<Rightarrow> bool \<Rightarrow> bool \<Rightarrow> string list driver" where
  "scripted launchOk closeOk shotOk logOk =
     \<lparr>now = (\<lambda>w. int (length w)),
      launch = (\<lambda>w. (if launchOk then None else Some (Error ''launch failed''), w @ [''launch''])),
      newPage = (\<lambda>w. (None, w @ [''newPage''])),
      closePage = (\<lambda>w. (if closeOk then None else Some (Error ''close failed''), w @ [''close''])),
      goto = (\<lambda>url w.
        (if url = None then Some (Error ''url: expected string'')
         else if url = Some ''http://down'' then Some (Error ''net::ERR_CONNECTION_REFUSED'')
         else None, w @ [''goto''])),
      click = (\<lambda>sel w.
        (if sel = ''#missing'' then Some (Error ''Timeout exceeded'') else None, w @ [''click''])),
      fill = (\<lambda>sel v w.
        (if v = None then Some (Error ''value: expected string'')
         else if sel = ''#missing'' then Some (Error ''Timeout exceeded'')
         else None, w @ [''fill''])),
      selectOption = (\<lambda>sel v w.
        (if sel = ''#missing'' then Some (Error ''Timeout exceeded'') else None,
         w @ [''selectOption''])),
      waitForTimeout = (\<lambda>t w. (None, w @ [''waitForTimeout''])),
      waitForLoadState = (\<lambda>w. (None, w @ [''waitForLoadState''])),
      waitForSelector = (\<lambda>sel st w.
        (if sel = ''#missing'' then Some (Error ''Timeout exceeded'') else None,
         w @ [''waitForSelector''])),
      textContent = (\<lambda>sel w.
        (if sel = ''#missing'' then Inl (Error ''Timeout exceeded'') else Inr (Some ''Welcome''),
         w @ [''textContent''])),
      query = (\<lambda>sel w. (Inr (sel \<noteq> ''#missing''), w @ [''query''])),
      elementText = (\<lambda>sel w. (Inr (Some ''Welcome''), w @ [''elementText''])),
      pageUrl = (\<lambda>w. ''http://app/''),
      screenshot_png = (\<lambda>w.
        (if shotOk then Inr ''iVBORw0KGgo='' else Inl (Error ''screenshot failed''),
         w @ [''screenshot''])),
      mkdirs = (\<lambda>w. (None, w @ [''mkdir''])),
      screenshotFile = (\<lambda>path w.
        (if shotOk then None else Some (Error ''screenshot failed''), w @ [''screenshotFile''])),
      readFile = (\<lambda>path w. (Inr ''iVBORw0KGgo='', w @ [''readFile''])),
      writeLog = (\<lambda>path run w.
        (if logOk then None else Some (Error ''EACCES''), w @ [''writeFile'']))\<rparr>"

text \<open>A runner that has a browser and a suite run of one case in progress, and one that has neither.\<close>

definition idle :: "string list runner" where
  "idle = \<lparr>env = [], browser = False, currentSuiteRun = None, testRuns = Map.empty\<rparr>"

definition ready :: "string list runner" where
  "ready = startSuiteRun (scripted True True True True) \<lparr>suite_id = ''s'', testCases = []\<rparr>
             (idle\<lparr>browser := True\<rparr>)"

text \<open>
  Test cases for worked examples: \<open>caseA\<close> navigates to the unreachable address, \<open>caseB\<close>
  depends on \<open>caseA\<close>, \<open>caseP\<close> navigates, clicks and has three assertions that hold on
  the scripted driver, the second of them a \<open>urlEquals\<close> without selector that expects
  another address than the page has, and \<open>caseQ\<close> has one assertion on the element that
  is never found followed by one that holds.
\<close>

definition aStep :: "string \<Rightarrow> Action \<Rightarrow> Selector option \<Rightarrow> string option \<Rightarrow> Step" where
  "aStep i a sel v =
     \<lparr>step_id = i, step_action = a, step_selector = sel, step_value = v,
      step_timeout = None, waitForNavigation = False, step_testData = None,
      useValidData = False\<rparr>"

definition css :: "string \<Rightarrow> Selector option" where
  "css v = Some \<lparr>sel_type = Some St_css, sel_value = v\<rparr>"

definition caseA :: TestCase where
  "caseA = \<lparr>tc_id = ''A'',
             steps = [aStep ''a1'' A_navigate (css ''body'') (Some ''http://down'')],
             assertions = [], dependsOn = None\<rparr>"

definition caseB :: TestCase where
  "caseB = \<lparr>tc_id = ''B'', steps = [], assertions = [], dependsOn = Some [''A'']\<rparr>"

definition caseP :: TestCase where
  "caseP = \<lparr>tc_id = ''P'',
             steps = [aStep ''p1'' A_navigate (css ''body'') (Some ''http://app/''),
                      aStep ''p2'' A_click (css ''#go'') None],
             assertions =
               [\<lparr>assertion_id = ''x1'', assertionType = As_elementExists,
                 assertion_selector = css ''#title'', expectedValue = None\<rparr>,
                \<lparr>assertion_id = ''x2'', assertionType = As_urlEquals,
                 assertion_selector = None, expectedValue = Some ''http://other/''\<rparr>,
                \<lparr>assertion_id = ''x3'', assertionType = As_textEquals,
                 assertion_selector = css ''.msg'', expectedValue = Some ''Welcome''\<rparr>],
             dependsOn = Some []\<rparr>"

definition caseQ :: TestCase where
  "caseQ = \<lparr>tc_id = ''Q'', steps = [],
             assertions =
               [\<lparr>assertion_id = ''q1'', assertionType = As_elementVisible,
                 assertion_selector = css ''#missing'', expectedValue = None\<rparr>,
                \<lparr>assertion_id = ''q2'', assertionType = As_elementExists,
                 assertion_selector = css ''#title'', expectedValue = None\<rparr>],
             dependsOn = None\<rparr>"

text \<open>\<open>caseT\<close> navigates and then types into a field without a value and without fixtures.\<close>

definition caseT :: TestCase where
  "caseT = \<lparr>tc_id = ''T'',
             steps = [aStep ''t1'' A_navigate None (Some ''http://app/''),
                      aStep ''t2'' A_type (css ''#name'') None],
             assertions = [], dependsOn = None\<rparr>"

text \<open>
  A small document for worked examples: \<open>body\<close> under \<open>html\<close>, a \<open>div\<close> in the body, in it
  a plain \<open>input\<close> after a \<open>label\<close> and another \<open>input\<close>, an input whose \<open>name\<close> attribute
  is the empty string, and a form with an id, a name and a class.
\<close>

definition htmlEl :: element where
  "htmlEl = Element [] ''HTML'' None (ClassString []) False [] None"

definition bodyEl :: element where
  "bodyEl = Element [] ''BODY'' None (ClassString []) True [''HEAD''] (Some htmlEl)"

definition divEl :: element where
  "divEl = Element [] ''DIV'' None (ClassString []) False [] (Some bodyEl)"

definition inputEl :: element where
  "inputEl = Element [] ''INPUT'' None (ClassString []) False [''INPUT'', ''LABEL''] (Some divEl)"

definition emptyNameEl :: element where
  "emptyNameEl =
     Element [] ''INPUT'' (Some []) (ClassString ''field  wide'') False [] (Some divEl)"

definition loginEl :: element where
  "loginEl = Element ''login'' ''FORM'' (Some ''f'') (ClassString ''big'') False [] (Some bodyEl)"

text \<open>
  Three behaviours of \<open>element.evaluate\<close> on a world that counts the evaluations: it works,
  it throws every time, it throws the first time only.
\<close>

definition evaluateOk :: "element \<Rightarrow> nat \<Rightarrow> (error + element) \<times> nat" where
  "evaluateOk el n = (Inr el, Suc n)"

definition evaluateFails :: "nat \<Rightarrow> (error + element) \<times> nat" where
  "evaluateFails n = (Inl (Error ''Execution context was destroyed''), Suc n)"

definition evaluateSecond :: "element \<Rightarrow> nat \<Rightarrow> (error + element) \<times> nat" where
  "evaluateSecond el n =
     (if n = 0 then Inl (Error ''Execution context was destroyed'') else Inr el, Suc n)"

text \<open>An operation that always throws, on a world that counts its executions.\<close>

definition alwaysFails :: "nat \<Rightarrow> (error + nat) \<times> nat" where
  "alwaysFails n = (Inl (Error ''boom''), Suc n)"

section \<open>Selector resolution\<close>

lemma buildSelector_routes_total:
  \<open>buildSelector_routes None = '''' \<and>
   buildSelector_routes (Some \<lparr>sel_type = Some St_id, sel_value = v\<rparr>) = ''#'' @ v \<and>
   buildSelector_routes (Some \<lparr>sel_type = Some St_name, sel_value = v\<rparr>) = ''[name="'' @ v @ ''"]'' \<and>
   buildSelector_routes (Some \<lparr>sel_type = Some St_css, sel_value = v\<rparr>) = v \<and>
   buildSelector_routes (Some \<lparr>sel_type = Some St_xpath, sel_value = v\<rparr>) = ''xpath='' @ v \<and>
   buildSelector_routes (Some \<lparr>sel_type = Some St_linkText, sel_value = v\<rparr>) = ''text='' @ v \<and>
   buildSelector_routes (Some \<lparr>sel_type = Some St_className, sel_value = v\<rparr>) = ''.'' @ v \<and>
   buildSelector_routes (Some \<lparr>sel_type = Some St_tagName, sel_value = v\<rparr>) = v \<and>
   buildSelector_routes (Some \<lparr>sel_type = Some (St_unknown t), sel_value = v\<rparr>) = v \<and>
   buildSelector_routes (Some \<lparr>sel_type = None, sel_value = v\<rparr>) = v\<close>
  by (simp add: buildSelector_routes_def)

text \<open>
  C5. Selector resolution is to map \<open>id\<close> to \<open>#value\<close>, \<open>name\<close> to \<open>[name="value"]\<close>, \<open>css\<close>
  and \<open>tagName\<close> to the value, \<open>xpath\<close> to \<open>xpath=value\<close>, \<open>linkText\<close> to \<open>text=value\<close>,
  \<open>className\<close> to \<open>.value\<close>, an unknown or missing type to the raw value and an absent
  selector to the empty string, without ever raising. The resolver of routes/crawler.ts
  does so (lemma \<open>buildSelector_routes_total\<close>). The \<open>buildSelector\<close> of
  services/runTScrawler.ts has no case for \<open>name\<close>, \<open>linkText\<close> and \<open>className\<close>: they fall
  to the default and yield the raw value, and an absent selector raises.
\<close>

theorem buildSelector_name_raw:
  \<open>buildSelector (Some \<lparr>sel_type = Some St_name, sel_value = ''email''\<rparr>) = Inr ''email'' \<and>
   buildSelector (Some \<lparr>sel_type = Some St_name, sel_value = ''email''\<rparr>) \<noteq> Inr ''[name="email"]'' \<and>
   buildSelector (Some \<lparr>sel_type = Some St_linkText, sel_value = ''Home''\<rparr>) = Inr ''Home'' \<and>
   buildSelector (Some \<lparr>sel_type = Some St_className, sel_value = ''btn''\<rparr>) = Inr ''btn'' \<and>
   isl (buildSelector None)\<close>
  by (simp add: buildSelector_def)

section \<open>Retrying a failing operation\<close>

lemma retryOperation_last:
  "MAX_RETRY_ATTEMPTS \<le> retryCount \<Longrightarrow>
   retryOperation operation retryCount s =
     (case operation (world s) of
        (Inr v, w') \<Rightarrow> (Inr v, s\<lparr>world := w'\<rparr>)
      | (Inl err, w') \<Rightarrow> (Inl err, s\<lparr>world := w', errorCount := errorCount s + 1\<rparr>))"
  by (subst retryOperation.simps) (simp split: prod.splits sum.splits)

lemma retryOperation_again:
  "retryCount < MAX_RETRY_ATTEMPTS \<Longrightarrow>
   retryOperation operation retryCount s =
     (case operation (world s) of
        (Inr v, w') \<Rightarrow> (Inr v, s\<lparr>world := w'\<rparr>)
      | (Inl err, w') \<Rightarrow>
          retryOperation operation (Suc retryCount)
            (s\<lparr>world := w', errorCount := errorCount s + 1,
               delays := delays s @ [RECOVERY_DELAY * Suc retryCount]\<rparr>))"
  by (subst retryOperation.simps) (simp split: prod.splits sum.splits)

lemma logged_run:
  "logged operation (log, w) = (fst (operation w), log @ [fst (operation w)], snd (operation w))"
  by (simp add: logged_def split: prod.splits)

text \<open>
  C7, as amended. \<open>retryOperation\<close> executes the wrapped operation at most four times,
  the first attempt and up to \<open>MAX_RETRY_ATTEMPTS = 3\<close> retries. With the operation
  instrumented to log its outcomes: between one and four executions are made, every one
  but the last failed, the result is the outcome of the last, a failure is returned only
  after four executions, the delay before the n-th retry is \<open>RECOVERY_DELAY * n\<close>, and
  \<open>errorCount\<close> grows by the number of failed executions.
\<close>

theorem retryOperation_attempts:
  assumes "world s = ([], w)"
    and "retryOperation (logged operation) 0 s = (r, s')"
  shows "\<exists>log w'. world s' = (log, w') \<and>
           1 \<le> length log \<and> length log \<le> MAX_RETRY_ATTEMPTS + 1 \<and>
           r = last log \<and> (\<forall>x \<in> set (butlast log). isl x) \<and>
           (isl r \<longrightarrow> length log = MAX_RETRY_ATTEMPTS + 1) \<and>
           delays s' = delays s @ map (\<lambda>n. RECOVERY_DELAY * n) [1..<length log] \<and>
           errorCount s' = errorCount s + length (filter isl log)"
proof -
  define r1 w1 where "r1 = fst (operation w)" and "w1 = snd (operation w)"
  define r2 w2 where "r2 = fst (operation w1)" and "w2 = snd (operation w1)"
  define r3 w3 where "r3 = fst (operation w2)" and "w3 = snd (operation w2)"
  define r4 w4 where "r4 = fst (operation w3)" and "w4 = snd (operation w3)"
  note defs = r1_def [symmetric] w1_def [symmetric] r2_def [symmetric] w2_def [symmetric]
    r3_def [symmetric] w3_def [symmetric] r4_def [symmetric] w4_def [symmetric]
  note run = retryOperation_again retryOperation_last MAX_RETRY_ATTEMPTS_def logged_run
  show ?thesis
  proof (cases r1)
    case (Inr v1)
    with assms show ?thesis by (auto simp: run defs)
  next
    case e1: (Inl e1)
    show ?thesis
    proof (cases r2)
      case (Inr v2)
      with assms e1 show ?thesis by (auto simp: run defs)
    next
      case e2: (Inl e2)
      show ?thesis
      proof (cases r3)
        case (Inr v3)
        with assms e1 e2 show ?thesis by (auto simp: run defs numeral_2_eq_2)
      next
        case e3: (Inl e3)
        show ?thesis
        proof (cases r4)
          case (Inr v4)
          with assms e1 e2 e3 show ?thesis by (auto simp: run defs numeral_3_eq_3 numeral_2_eq_2)
        next
          case (Inl e4)
          with assms e1 e2 e3 show ?thesis by (auto simp: run defs numeral_3_eq_3 numeral_2_eq_2)
        qed
      qed
    qed
  qed
qed

text \<open>
  The theorem at an operation that always throws: four executions, delays of 1000, 2000
  and 3000 ms, and the error of the last execution as the result.
\<close>

theorem retryOperation_attempts_witness:
  "retryOperation (logged alwaysFails) 0 \<lparr>world = ([], 0), errorCount = 0, delays = []\<rparr>
     = (Inl (Error ''boom''),
        \<lparr>world = (replicate 4 (Inl (Error ''boom'')), 4), errorCount = 4,
         delays = [1000, 2000, 3000]\<rparr>)
   \<and> length (replicate 4 (Inl (Error ''boom'') :: error + nat)) = MAX_RETRY_ATTEMPTS + 1
   \<and> [1000, 2000, 3000] = map (\<lambda>n. RECOVERY_DELAY * n) [1..<4]"
proof -
  have run: "retryOperation (logged alwaysFails) 0 \<lparr>world = ([], 0), errorCount = 0, delays = []\<rparr>
     = (Inl (Error ''boom''),
        \<lparr>world = (replicate 4 (Inl (Error ''boom'')), 4), errorCount = 4,
         delays = [1000, 2000, 3000]\<rparr>)"
    by (simp add: retryOperation_again retryOperation_last MAX_RETRY_ATTEMPTS_def logged_run
          alwaysFails_def RECOVERY_DELAY_def numeral_eq_Suc)
  have start: "world \<lparr>world = ([] :: (error + nat) list, 0::nat), errorCount = 0, delays = []\<rparr> = ([], 0)"
    by simp
  from retryOperation_attempts [OF start run] run show ?thesis by auto
qed

text \<open>
  C7 as stated speaks of at most three attempts in total. An operation that always throws
  is executed four times (its world counts the executions) before the error is passed on.
\<close>

theorem retryOperation_fourth_attempt:
  "retryOperation alwaysFails 0 \<lparr>world = 0, errorCount = 0, delays = []\<rparr>
     = (Inl (Error ''boom''), \<lparr>world = 4, errorCount = 4, delays = [1000, 2000, 3000]\<rparr>)"
  by (simp add: retryOperation_again retryOperation_last MAX_RETRY_ATTEMPTS_def
        alwaysFails_def RECOVERY_DELAY_def)

section \<open>Attribute filtering\<close>

text \<open>
  Both loops assign to a fresh record, so over distinct names each assignment appends, and
  \<open>Object.entries\<close> only permutes the properties.
\<close>

lemma setProperty_fresh:
  "key \<noteq> ''__proto__'' \<Longrightarrow> key \<notin> fst ` set obj \<Longrightarrow>
   setProperty key val obj = obj @ [(key, val)]"
  by (induction obj) (auto simp: setProperty_def)

lemma collect_attributes:
  "distinct (map fst (acc @ xs)) \<Longrightarrow>
   foldl (\<lambda>attributes (name, val). setProperty name val attributes) acc xs
     = acc @ filter (\<lambda>(name, val). name \<noteq> ''__proto__'') xs"
proof (induction xs arbitrary: acc)
  case Nil
  then show ?case by simp
next
  case (Cons x xs)
  obtain k v where x: "x = (k, v)" by (cases x)
  show ?case
  proof (cases "k = ''__proto__''")
    case True
    from Cons.prems have "distinct (map fst (acc @ xs))" by (simp add: x)
    from Cons.IH [OF this] show ?thesis by (simp add: x True setProperty_def)
  next
    case False
    from Cons.prems have "k \<notin> fst ` set acc" by (auto simp: x)
    with False have u: "setProperty k v acc = acc @ [(k, v)]" by (rule setProperty_fresh)
    from Cons.prems have "distinct (map fst ((acc @ [(k, v)]) @ xs))" by (simp add: x)
    from Cons.IH [OF this] show ?thesis by (simp add: x u False)
  qed
qed

lemma validate_attributes:
  "distinct (map fst (acc @ xs)) \<Longrightarrow>
   foldl (\<lambda>validAttributes (key, val).
            if length val < 1000 then setProperty key val validAttributes
            else validAttributes) acc xs
     = acc @ filter (\<lambda>(key, val). length val < 1000 \<and> key \<noteq> ''__proto__'') xs"
proof (induction xs arbitrary: acc)
  case Nil
  then show ?case by simp
next
  case (Cons x xs)
  obtain k v where x: "x = (k, v)" by (cases x)
  show ?case
  proof (cases "length v < 1000 \<and> k \<noteq> ''__proto__''")
    case True
    from Cons.prems have "k \<notin> fst ` set acc" by (auto simp: x)
    with True have u: "setProperty k v acc = acc @ [(k, v)]" by (simp add: setProperty_fresh)
    from Cons.prems have "distinct (map fst ((acc @ [(k, v)]) @ xs))" by (simp add: x)
    from Cons.IH [OF this] show ?thesis using True by (simp add: x u)
  next
    case False
    from Cons.prems have "distinct (map fst (acc @ xs))" by (simp add: x)
    from Cons.IH [OF this] show ?thesis using False by (auto simp: x setProperty_def)
  qed
qed

lemma set_entries: "set (entries obj) = set obj"
  by (auto simp: entries_def)

lemma distinct_entries:
  assumes "distinct (map fst obj)"
  shows "distinct (map fst (entries obj))"
proof -
  from assms have d: "distinct obj" and i: "inj_on fst (set obj)"
    by (simp_all add: distinct_map)
  from d have "distinct (entries obj)" by (auto simp: entries_def)
  moreover from i have "inj_on fst (set (entries obj))" by (simp add: set_entries)
  ultimately show ?thesis by (simp add: distinct_map)
qed

text \<open>
  What \<open>extractAttributes\<close> keeps of any element with distinct attribute names: the
  attributes with a value shorter than 1000 characters and a name other than \<open>__proto__\<close>.
\<close>

lemma extractAttributes_set:
  assumes "distinct (map fst el_attributes)"
  shows "\<exists>kept. extractAttributes (Inr el_attributes) = Inr kept \<and>
           distinct (map fst kept) \<and>
           set kept = {(name, val). (name, val) \<in> set el_attributes \<and> length val < 1000 \<and>
                         name \<noteq> ''__proto__''}"
proof -
  let ?obj = "filter (\<lambda>(name, val). name \<noteq> ''__proto__'') el_attributes"
  have c: "foldl (\<lambda>attributes (name, val). setProperty name val attributes) [] el_attributes = ?obj"
    using collect_attributes [of "[]" el_attributes] assms by simp
  have dobj: "distinct (map fst ?obj)" using assms by (simp add: distinct_map_filter)
  then have de: "distinct (map fst ([] @ entries ?obj))" by (simp add: distinct_entries)
  let ?kept = "filter (\<lambda>(key, val). length val < 1000 \<and> key \<noteq> ''__proto__'') (entries ?obj)"
  have v: "validateAttributes ?obj = ?kept"
    using validate_attributes [OF de] by (simp add: validateAttributes_def)
  have "distinct (map fst ?kept)" using de by (simp add: distinct_map_filter)
  moreover have "set ?kept = {(name, val). (name, val) \<in> set el_attributes \<and> length val < 1000 \<and>
                         name \<noteq> ''__proto__''}"
    by (auto simp: set_entries)
  ultimately show ?thesis by (simp add: extractAttributes_def c v)
qed

lemma len1000: "length (replicate 1000 (CHR ''x'')) = 1000"
  by (simp only: length_replicate)

lemma extractAttributes_single_long:
  "1000 \<le> length v \<Longrightarrow> extractAttributes (Inr [(k, v)]) = Inr []"
  by (simp add: extractAttributes_def validateAttributes_def setProperty_def entries_def)

text \<open>An attribute named \<open>__proto__\<close> never reaches the record, whatever its length.\<close>

lemma extractAttributes_proto:
  "extractAttributes (Inr [(''id'', ''a''), (''__proto__'', ''x'')]) = Inr [(''id'', ''a'')]"
  by (simp add: extractAttributes_def validateAttributes_def setProperty_def entries_def
        isArrayIndex_def)

text \<open>
  C8, as amended. For an element whose attribute names are distinct (as the names of a
  DOM element are) and none of whose attributes is named \<open>__proto__\<close>, a successful
  \<open>extractAttributes\<close> returns exactly the attributes whose value is shorter than 1000
  characters, each with its name and value unchanged: a value of 1000 characters or more is
  dropped. (An attribute named \<open>__proto__\<close> is lost whatever its length, see
  \<open>extractAttributes_proto\<close>; the statement is about the other elements.)
\<close>

theorem extractAttributes_below_1000:
  assumes "distinct (map fst el_attributes)"
    and "''__proto__'' \<notin> fst ` set el_attributes"
  shows "\<exists>kept. extractAttributes (Inr el_attributes) = Inr kept \<and>
           distinct (map fst kept) \<and>
           set kept = {(name, val). (name, val) \<in> set el_attributes \<and> length val < 1000}"
proof -
  from extractAttributes_set [OF assms(1)] obtain kept where
    k: "extractAttributes (Inr el_attributes) = Inr kept" "distinct (map fst kept)"
       "set kept = {(name, val). (name, val) \<in> set el_attributes \<and> length val < 1000 \<and>
                         name \<noteq> ''__proto__''}"
    by blast
  have "set kept = {(name, val). (name, val) \<in> set el_attributes \<and> length val < 1000}"
    unfolding k(3) using assms(2) by force
  with k(1,2) show ?thesis by blast
qed

text \<open>The theorem at an element with a short \<open>id\<close> and a data attribute of 1000 characters.\<close>

theorem extractAttributes_below_1000_witness:
  "distinct (map fst [(''id'', ''login''), (''data-blob'', replicate 1000 (CHR ''x''))]) \<and>
   ''__proto__'' \<notin> fst ` set [(''id'', ''login''), (''data-blob'', replicate 1000 (CHR ''x''))] \<and>
   (\<exists>kept. extractAttributes (Inr [(''id'', ''login''), (''data-blob'', replicate 1000 (CHR ''x''))])
              = Inr kept \<and> set kept = {(''id'', ''login'')})"
proof -
  have h: "distinct (map fst [(''id'', ''login''), (''data-blob'', replicate 1000 (CHR ''x''))])"
    by simp
  have p: "''__proto__'' \<notin> fst ` set [(''id'', ''login''), (''data-blob'', replicate 1000 (CHR ''x''))]"
    by simp
  from extractAttributes_below_1000 [OF h p] obtain kept where
    k: "extractAttributes (Inr [(''id'', ''login''), (''data-blob'', replicate 1000 (CHR ''x''))]) = Inr kept"
      "set kept = {(name, val). (name, val) \<in> set [(''id'', ''login''), (''data-blob'', replicate 1000 (CHR ''x''))]
                      \<and> length val < 1000}"
    by blast
  have "set kept = {(''id'', ''login'')}"
    unfolding k(2) using len1000 by auto
  with h p k(1) show ?thesis by blast
qed

text \<open>
  C8 as stated keeps every value that does not exceed 1000 characters. A value of exactly
  1000 characters does not exceed 1000, and it is dropped.
\<close>

theorem extractAttributes_drops_1000:
  "length (replicate 1000 (CHR ''x'')) \<le> 1000 \<and>
   extractAttributes (Inr [(''data-blob'', replicate 1000 (CHR ''x''))]) = Inr []"
  using extractAttributes_single_long [of "replicate 1000 (CHR ''x'')" "''data-blob''"] len1000
  by (simp only: le_refl simp_thms)

section \<open>Counting the cases of a suite\<close>

lemma updateSuiteRunStats_counts:
  "currentSuiteRun s = Some r \<Longrightarrow> st = PASSED \<or> st = FAILED \<or> st = BLOCKED \<Longrightarrow>
   \<exists>r'. updateSuiteRunStats st s = s\<lparr>currentSuiteRun := Some r'\<rparr> \<and>
        totalTests r' = totalTests r \<and> counted r' = counted r + 1"
  by (auto simp: updateSuiteRunStats_def counted_def)

lemma tryTestCase_status:
  "tryTestCase d tc tr b w = (None, tr', w') \<Longrightarrow> status tr' = PASSED \<or> status tr' = FAILED"
  by (auto simp: tryTestCase_def split: if_splits prod.splits option.splits)

lemma runTestCase_counts:
  assumes "currentSuiteRun s = Some r"
  shows "\<exists>s' r'. runTestCase d tc s = (None, s') \<and> currentSuiteRun s' = Some r' \<and>
           totalTests r' = totalTests r \<and> counted r' = counted r + 1 \<and> browser s' = browser s"
proof -
  obtain outcome tr1 w where
    t: "tryTestCase d tc (freshRun d tc s) (browser s) (env s) = (outcome, tr1, w)"
    by (metis prod_cases3)
  have c: "currentSuiteRun (s\<lparr>env := w\<rparr>) = Some r" using assms by simp
  show ?thesis
  proof (cases outcome)
    case None
    with t have "status tr1 = PASSED \<or> status tr1 = FAILED" by (auto dest: tryTestCase_status)
    then obtain r' where u:
      "updateSuiteRunStats (status tr1) (s\<lparr>env := w\<rparr>) = s\<lparr>env := w, currentSuiteRun := Some r'\<rparr>"
      "totalTests r' = totalTests r" "counted r' = counted r + 1"
      using updateSuiteRunStats_counts [OF c, of "status tr1"] by auto
    show ?thesis using t None u
      by (simp add: runTestCase_def Let_def registerRun_def counted_def)
  next
    case (Some e)
    obtain r' where u:
      "updateSuiteRunStats FAILED (s\<lparr>env := w\<rparr>) = s\<lparr>env := w, currentSuiteRun := Some r'\<rparr>"
      "totalTests r' = totalTests r" "counted r' = counted r + 1"
      using updateSuiteRunStats_counts [OF c, of FAILED] by auto
    show ?thesis using t Some u
      by (simp add: runTestCase_def Let_def registerRun_def counted_def)
  qed
qed

lemma recordBlockedTest_counts:
  assumes "currentSuiteRun s = Some r"
  shows "\<exists>s' r'. recordBlockedTest d tc s = (None, s') \<and> currentSuiteRun s' = Some r' \<and>
           totalTests r' = totalTests r \<and> counted r' = counted r + 1 \<and> browser s' = browser s"
  using assms
  by (simp add: recordBlockedTest_def Let_def registerRun_def updateSuiteRunStats_def counted_def)

lemma runOrBlock_counts:
  assumes "currentSuiteRun s = Some r"
  shows "\<exists>s' r'. runOrBlock d tc s = (None, s') \<and> currentSuiteRun s' = Some r' \<and>
           totalTests r' = totalTests r \<and> counted r' = counted r + 1 \<and> browser s' = browser s"
  using runTestCase_counts [OF assms] recordBlockedTest_counts [OF assms]
  by (simp add: runOrBlock_def)

lemma runCases_counts:
  "currentSuiteRun s = Some r \<Longrightarrow>
   \<exists>s' r'. runCases d cases s = (None, s') \<and> currentSuiteRun s' = Some r' \<and>
           totalTests r' = totalTests r \<and> counted r' = counted r + length cases \<and>
           browser s' = browser s"
proof (induction cases arbitrary: s r)
  case Nil
  then show ?case by simp
next
  case (Cons tc cases)
  from runOrBlock_counts [OF Cons.prems, of d tc] obtain s1 r1 where
    1: "runOrBlock d tc s = (None, s1)" "currentSuiteRun s1 = Some r1"
       "totalTests r1 = totalTests r" "counted r1 = counted r + 1" "browser s1 = browser s"
    by blast
  from Cons.IH [OF 1(2)] obtain s' r' where
    2: "runCases d cases s1 = (None, s')" "currentSuiteRun s' = Some r'"
       "totalTests r' = totalTests r1" "counted r' = counted r1 + length cases"
       "browser s' = browser s1"
    by blast
  show ?case using 1 2 by simp
qed

lemma startSuiteRun_fresh:
  "\<exists>r. currentSuiteRun (startSuiteRun d suite s) = Some r \<and>
       totalTests r = length (testCases suite) \<and> counted r = 0 \<and>
       env (startSuiteRun d suite s) = env s \<and> browser (startSuiteRun d suite s) = browser s"
  by (simp add: startSuiteRun_def counted_def)

lemma ensureBrowser_keeps:
  "ensureBrowser d s = (outcome, s0) \<Longrightarrow> currentSuiteRun s0 = currentSuiteRun s"
  by (auto simp: ensureBrowser_def initialize_def split: if_splits prod.splits option.splits)

lemma ensureBrowser_fails:
  "(\<exists>e s0. ensureBrowser d s = (Some e, s0)) \<longleftrightarrow> (\<not> browser s \<and> fst (launch d (env s)) \<noteq> None)"
  by (auto simp: ensureBrowser_def initialize_def split: if_splits prod.splits option.splits)

lemma finishSuiteRun_Some:
  "currentSuiteRun s = Some r \<Longrightarrow>
   \<exists>r'. currentSuiteRun (finishSuiteRun d s) = Some r' \<and>
        totalTests r' = totalTests r \<and> passedTests r' = passedTests r \<and>
        failedTests r' = failedTests r \<and> blockedTests r' = blockedTests r \<and>
        skippedTests r' = skippedTests r \<and>
        suite_status r' =
          (if failedTests r > 0 then FAILED
           else if passedTests r = totalTests r then PASSED
           else if blockedTests r > 0 then BLOCKED
           else FAILED)"
  by (simp add: finishSuiteRun_def determineTestSuiteStatus_def Let_def)

text \<open>The suite run that \<open>runTestSuite\<close> leaves behind, and what it returns.\<close>

lemma runTestSuite_shape:
  assumes "runTestSuite d suite s = (res, s')"
  shows "\<exists>outcome s1 r1. 
           (case ensureBrowser d (startSuiteRun d suite s) of
               (Some e, s0) \<Rightarrow> (Some e, s0)
             | (None, s0) \<Rightarrow> runCases d (testCases suite) s0) = (outcome, s1) \<and>
           currentSuiteRun s1 = Some r1 \<and> s' = finishSuiteRun d s1 \<and>
           totalTests r1 = length (testCases suite) \<and>
           (outcome = None \<longrightarrow> counted r1 = length (testCases suite) \<and>
               res = Inr (the (currentSuiteRun s'))) \<and>
           (\<forall>e. outcome = Some e \<longrightarrow> counted r1 = 0 \<and> res = Inl e \<and>
               \<not> browser s \<and> fst (launch d (env s)) \<noteq> None)"
proof -
  obtain r0 where r0: "currentSuiteRun (startSuiteRun d suite s) = Some r0"
    "totalTests r0 = length (testCases suite)" "counted r0 = 0"
    "env (startSuiteRun d suite s) = env s" "browser (startSuiteRun d suite s) = browser s"
    using startSuiteRun_fresh [of d suite s] by blast
  obtain o0 s0 where eb: "ensureBrowser d (startSuiteRun d suite s) = (o0, s0)"
    by (cases "ensureBrowser d (startSuiteRun d suite s)")
  have c0: "currentSuiteRun s0 = Some r0" using ensureBrowser_keeps [OF eb] r0 by simp
  show ?thesis
  proof (cases o0)
    case None
    from runCases_counts [OF c0, of d "testCases suite"] obtain s1 r1 where
      rc: "runCases d (testCases suite) s0 = (None, s1)" "currentSuiteRun s1 = Some r1"
          "totalTests r1 = totalTests r0" "counted r1 = counted r0 + length (testCases suite)"
      by blast
    from finishSuiteRun_Some [OF rc(2), of d] obtain r' where
      f: "currentSuiteRun (finishSuiteRun d s1) = Some r'" by blast
    show ?thesis using assms eb None rc r0 f
      by (auto simp: runTestSuite_def Let_def)
  next
    case (Some e)
    from finishSuiteRun_Some [OF c0, of d] obtain r' where
      f: "currentSuiteRun (finishSuiteRun d s0) = Some r'" by blast
    have "\<not> browser (startSuiteRun d suite s) \<and> fst (launch d (env (startSuiteRun d suite s))) \<noteq> None"
      using ensureBrowser_fails [of d "startSuiteRun d suite s"] eb Some by blast
    then show ?thesis using assms eb Some c0 r0 f
      by (auto simp: runTestSuite_def Let_def)
  qed
qed


lemmas runner_eval =
  runTestSuite_def startSuiteRun_def ensureBrowser_def initialize_def runOrBlock_def
  canRunTest_def runTestCase_def tryTestCase_def executeStep_def buildSelector_def
  executeAssertion_def captureScreenshot_def registerRun_def updateSuiteRunStats_def
  recordBlockedTest_def finishSuiteRun_def determineTestSuiteStatus_def scripted_def
  aStep_def css_def idle_def ready_def Let_def counted_def freshRun_def

text \<open>
  C1. Whatever happens during \<open>runTestSuite\<close>, it leaves a suite run whose status is
  derived from its counters in this order: FAILED if \<open>failedTests > 0\<close>, else PASSED if
  \<open>passedTests = totalTests\<close>, else BLOCKED if \<open>blockedTests > 0\<close>, else FAILED; a run
  that is returned is that suite run. So a PASSED suite has \<open>passedTests = totalTests\<close> and
  \<open>failedTests = 0\<close>.
\<close>

theorem runTestSuite_status:
  assumes "runTestSuite d testSuite s = (res, s')"
  shows "\<exists>r. currentSuiteRun s' = Some r \<and> (\<forall>x. res = Inr x \<longrightarrow> x = r) \<and>
           suite_status r =
             (if failedTests r > 0 then FAILED
              else if passedTests r = totalTests r then PASSED
              else if blockedTests r > 0 then BLOCKED
              else FAILED) \<and>
           (suite_status r = PASSED \<longrightarrow> passedTests r = totalTests r \<and> failedTests r = 0)"
proof -
  from runTestSuite_shape [OF assms] obtain outcome s1 r1 where
    sh: "currentSuiteRun s1 = Some r1" "s' = finishSuiteRun d s1"
        "outcome = None \<longrightarrow> res = Inr (the (currentSuiteRun s'))"
        "\<forall>e. outcome = Some e \<longrightarrow> res = Inl e"
    by blast
  from finishSuiteRun_Some [OF sh(1), of d] obtain r where
    r: "currentSuiteRun (finishSuiteRun d s1) = Some r"
       "totalTests r = totalTests r1" "passedTests r = passedTests r1"
       "failedTests r = failedTests r1" "blockedTests r = blockedTests r1"
       "suite_status r =
          (if failedTests r1 > 0 then FAILED
           else if passedTests r1 = totalTests r1 then PASSED
           else if blockedTests r1 > 0 then BLOCKED
           else FAILED)"
    by blast
  have ret: "\<forall>x. res = Inr x \<longrightarrow> x = r"
    using sh(2,3,4) r(1) by (cases outcome) auto
  have st: "suite_status r =
             (if failedTests r > 0 then FAILED
              else if passedTests r = totalTests r then PASSED
              else if blockedTests r > 0 then BLOCKED
              else FAILED)"
    using r by simp
  have "suite_status r = PASSED \<longrightarrow> passedTests r = totalTests r \<and> failedTests r = 0"
    unfolding st by (simp split: if_splits)
  with r(1) sh(2) ret st show ?thesis by blast
qed

lemma suiteP_run:
  "map_option (\<lambda>r. (suite_status r, passedTests r, failedTests r, blockedTests r, totalTests r))
     (currentSuiteRun (snd (runTestSuite (scripted True True True True)
        \<lparr>suite_id = ''s'', testCases = [caseP]\<rparr> idle)))
   = Some (PASSED, 1, 0, 0, 1)"
  by (simp add: runner_eval caseP_def)


text \<open>The theorem at a suite of one passing case: PASSED, one of one passed, none failed.\<close>

theorem runTestSuite_status_witness:
  "map_option suite_status (currentSuiteRun (snd (runTestSuite (scripted True True True True)
        \<lparr>suite_id = ''s'', testCases = [caseP]\<rparr> idle))) = Some PASSED \<and>
   map_option passedTests (currentSuiteRun (snd (runTestSuite (scripted True True True True)
        \<lparr>suite_id = ''s'', testCases = [caseP]\<rparr> idle))) = Some 1 \<and>
   map_option totalTests (currentSuiteRun (snd (runTestSuite (scripted True True True True)
        \<lparr>suite_id = ''s'', testCases = [caseP]\<rparr> idle))) = Some 1 \<and>
   map_option failedTests (currentSuiteRun (snd (runTestSuite (scripted True True True True)
        \<lparr>suite_id = ''s'', testCases = [caseP]\<rparr> idle))) = Some 0"
proof -
  let ?run = "runTestSuite (scripted True True True True)
                \<lparr>suite_id = ''s'', testCases = [caseP]\<rparr> idle"
  have run: "?run = (fst ?run, snd ?run)" by simp
  from runTestSuite_status [OF run] obtain r where
    r: "currentSuiteRun (snd ?run) = Some r"
       "suite_status r = PASSED \<longrightarrow> passedTests r = totalTests r \<and> failedTests r = 0"
    by blast
  have p: "suite_status r = PASSED" "totalTests r = 1"
    using suiteP_run r(1) by auto
  with r(2) have "passedTests r = 1 \<and> failedTests r = 0" by simp
  with r(1) p show ?thesis by simp
qed

lemma runCases_append:
  "runCases d (xs @ ys) s =
     (case runCases d xs s of
        (Some e, s1) \<Rightarrow> (Some e, s1)
      | (None, s1) \<Rightarrow> runCases d ys s1)"
  by (induction xs arbitrary: s) (auto split: prod.splits option.splits)

text \<open>
  C4, as amended. \<open>totalTests\<close> is the number of cases of the suite. Once the browser is
  there, the state after the first \<open>k\<close> cases of the loop has counted exactly \<open>k\<close> cases
  (each case adds one to exactly one counter), so the sum of the four counters never
  exceeds \<open>totalTests\<close>; a suite run that \<open>runTestSuite\<close> returns has the sum equal to
  \<open>totalTests\<close>. \<open>runTestSuite\<close> throws exactly when there is no browser and the launch
  fails, and then the suite run it leaves behind, completed by the \<open>finally\<close> block, has
  counted no case at all.
\<close>

theorem suite_counters:
  "(\<forall>s0 k. ensureBrowser d (startSuiteRun d testSuite s) = (None, s0) \<longrightarrow>
            k \<le> length (testCases testSuite) \<longrightarrow>
      (\<exists>sk rk. runCases d (take k (testCases testSuite)) s0 = (None, sk) \<and>
         runCases d (testCases testSuite) s0 = runCases d (drop k (testCases testSuite)) sk \<and>
         currentSuiteRun sk = Some rk \<and>
         totalTests rk = length (testCases testSuite) \<and>
         passedTests rk + failedTests rk + blockedTests rk + skippedTests rk = k)) \<and>
   (\<forall>res s'. runTestSuite d testSuite s = (res, s') \<longrightarrow>
      (\<exists>r. currentSuiteRun s' = Some r \<and>
         totalTests r = length (testCases testSuite) \<and>
         passedTests r + failedTests r + blockedTests r + skippedTests r \<le> totalTests r \<and>
         (\<forall>x. res = Inr x \<longrightarrow>
            x = r \<and>
            passedTests r + failedTests r + blockedTests r + skippedTests r = totalTests r) \<and>
         (isl res \<longleftrightarrow> \<not> browser s \<and> fst (launch d (env s)) \<noteq> None) \<and>
         (isl res \<longrightarrow>
            passedTests r + failedTests r + blockedTests r + skippedTests r = 0)))"
proof (intro conjI allI impI)
  fix s0 k
  assume eb: "ensureBrowser d (startSuiteRun d testSuite s) = (None, s0)"
    and k: "k \<le> length (testCases testSuite)"
  obtain r0 where r0: "currentSuiteRun (startSuiteRun d testSuite s) = Some r0"
    "totalTests r0 = length (testCases testSuite)" "counted r0 = 0"
    using startSuiteRun_fresh [of d testSuite s] by blast
  have c0: "currentSuiteRun s0 = Some r0" using ensureBrowser_keeps [OF eb] r0 by simp
  from runCases_counts [OF c0, of d "take k (testCases testSuite)"] obtain sk rk where
    rc: "runCases d (take k (testCases testSuite)) s0 = (None, sk)" "currentSuiteRun sk = Some rk"
        "totalTests rk = totalTests r0"
        "counted rk = counted r0 + length (take k (testCases testSuite))"
    by blast
  have "runCases d (take k (testCases testSuite) @ drop k (testCases testSuite)) s0
          = runCases d (drop k (testCases testSuite)) sk"
    unfolding runCases_append using rc(1) by simp
  then have "runCases d (testCases testSuite) s0 = runCases d (drop k (testCases testSuite)) sk"
    by simp
  with rc r0 k show "\<exists>sk rk. runCases d (take k (testCases testSuite)) s0 = (None, sk) \<and>
         runCases d (testCases testSuite) s0 = runCases d (drop k (testCases testSuite)) sk \<and>
         currentSuiteRun sk = Some rk \<and>
         totalTests rk = length (testCases testSuite) \<and>
         passedTests rk + failedTests rk + blockedTests rk + skippedTests rk = k"
    by (auto simp: counted_def)
next
  fix res s'
  assume run: "runTestSuite d testSuite s = (res, s')"
  from runTestSuite_shape [OF run] obtain outcome s1 r1 where
    sh: "currentSuiteRun s1 = Some r1" "s' = finishSuiteRun d s1"
        "totalTests r1 = length (testCases testSuite)"
        "outcome = None \<longrightarrow> counted r1 = length (testCases testSuite) \<and>
               res = Inr (the (currentSuiteRun s'))"
        "\<forall>e. outcome = Some e \<longrightarrow> counted r1 = 0 \<and> res = Inl e \<and>
               \<not> browser s \<and> fst (launch d (env s)) \<noteq> None"
        "(case ensureBrowser d (startSuiteRun d testSuite s) of
               (Some e, s0) \<Rightarrow> (Some e, s0)
             | (None, s0) \<Rightarrow> runCases d (testCases testSuite) s0) = (outcome, s1)"
    by blast
  from finishSuiteRun_Some [OF sh(1), of d] obtain r where
    r: "currentSuiteRun (finishSuiteRun d s1) = Some r"
       "totalTests r = totalTests r1" "counted r = counted r1"
    by (auto simp: counted_def)
  have fails: "outcome = None \<longrightarrow> \<not> (\<not> browser s \<and> fst (launch d (env s)) \<noteq> None)"
  proof
    assume "outcome = None"
    with sh(6) have "\<not> (\<exists>e s0. ensureBrowser d (startSuiteRun d testSuite s) = (Some e, s0))"
      by (auto split: prod.splits option.splits)
    then show "\<not> (\<not> browser s \<and> fst (launch d (env s)) \<noteq> None)"
      using ensureBrowser_fails [of d "startSuiteRun d testSuite s"]
        startSuiteRun_fresh [of d testSuite s] by auto
  qed
  show "\<exists>r. currentSuiteRun s' = Some r \<and>
         totalTests r = length (testCases testSuite) \<and>
         passedTests r + failedTests r + blockedTests r + skippedTests r \<le> totalTests r \<and>
         (\<forall>x. res = Inr x \<longrightarrow>
            x = r \<and>
            passedTests r + failedTests r + blockedTests r + skippedTests r = totalTests r) \<and>
         (isl res \<longleftrightarrow> \<not> browser s \<and> fst (launch d (env s)) \<noteq> None) \<and>
         (isl res \<longrightarrow>
            passedTests r + failedTests r + blockedTests r + skippedTests r = 0)"
  proof (cases outcome)
    case None
    with sh r fails show ?thesis by (auto simp: counted_def)
  next
    case (Some e)
    with sh r show ?thesis by (auto simp: counted_def)
  qed
qed

lemma suiteAB_first:
  "ensureBrowser (scripted True True True True)
     (startSuiteRun (scripted True True True True)
        \<lparr>suite_id = ''s'', testCases = [caseA, caseB]\<rparr> idle)
   = (None, startSuiteRun (scripted True True True True)
        \<lparr>suite_id = ''s'', testCases = [caseA, caseB]\<rparr> idle \<lparr>env := [''launch''], browser := True\<rparr>)"
  by (simp add: runner_eval)

lemma suiteAB_run:
  "map_option (\<lambda>r. (suite_status r, passedTests r, failedTests r, blockedTests r, skippedTests r,
                    totalTests r, map status (suite_testRuns r)))
     (currentSuiteRun (snd (runTestSuite (scripted True True True True)
        \<lparr>suite_id = ''s'', testCases = [caseA, caseB]\<rparr> idle)))
   = Some (FAILED, 0, 1, 1, 0, 2, [FAILED, BLOCKED])"
  by (simp add: runner_eval caseA_def caseB_def)

text \<open>
  The theorem at the suite of \<open>caseA\<close> and \<open>caseB\<close>: one case counted after the first,
  two of two in the run returned.
\<close>

theorem suite_counters_witness:
  "(\<exists>sk rk. runCases (scripted True True True True) (take 1 [caseA, caseB])
               (startSuiteRun (scripted True True True True)
                  \<lparr>suite_id = ''s'', testCases = [caseA, caseB]\<rparr> idle
                  \<lparr>env := [''launch''], browser := True\<rparr>) = (None, sk) \<and>
             currentSuiteRun sk = Some rk \<and> totalTests rk = 2 \<and> counted rk = 1) \<and>
   \<not> isl (fst (runTestSuite (scripted True True True True)
        \<lparr>suite_id = ''s'', testCases = [caseA, caseB]\<rparr> idle)) \<and>
   map_option counted (currentSuiteRun (snd (runTestSuite (scripted True True True True)
        \<lparr>suite_id = ''s'', testCases = [caseA, caseB]\<rparr> idle))) = Some 2 \<and>
   map_option totalTests (currentSuiteRun (snd (runTestSuite (scripted True True True True)
        \<lparr>suite_id = ''s'', testCases = [caseA, caseB]\<rparr> idle))) = Some 2"
proof -
  let ?d = "scripted True True True True"
  let ?S = "\<lparr>suite_id = ''s'', testCases = [caseA, caseB]\<rparr>"
  let ?run = "runTestSuite ?d ?S idle"
  note c = suite_counters [of ?d ?S idle]
  have k: "(1::nat) \<le> length (testCases ?S)" by simp
  from c suiteAB_first k obtain sk rk where
    1: "runCases ?d (take 1 (testCases ?S))
          (startSuiteRun ?d ?S idle \<lparr>env := [''launch''], browser := True\<rparr>) = (None, sk)"
       "currentSuiteRun sk = Some rk" "totalTests rk = length (testCases ?S)"
       "passedTests rk + failedTests rk + blockedTests rk + skippedTests rk = 1"
    by blast
  have run: "?run = (fst ?run, snd ?run)" by simp
  have launched: "fst (launch ?d (env idle)) = None" by (simp add: scripted_def)
  from c run obtain r where
    2: "currentSuiteRun (snd ?run) = Some r" "totalTests r = length (testCases ?S)"
       "\<forall>x. fst ?run = Inr x \<longrightarrow>
          passedTests r + failedTests r + blockedTests r + skippedTests r = totalTests r"
       "isl (fst ?run) \<longleftrightarrow> \<not> browser idle \<and> fst (launch ?d (env idle)) \<noteq> None"
    by blast
  from 2(4) launched have ok: "\<not> isl (fst ?run)" by simp
  then obtain x where "fst ?run = Inr x" by (cases "fst ?run") auto
  with 2(3) have "counted r = totalTests r" by (simp add: counted_def)
  with 1 2(1,2) ok show ?thesis by (auto simp: counted_def)
qed

text \<open>
  C4 as stated has the sum equal to \<open>totalTests\<close> whenever the status is terminal. When the
  browser cannot be launched, the \<open>finally\<close> block gives the suite run of one case the
  status FAILED while none of its counters has moved.
\<close>

theorem suite_counters_launch_failure:
  "isl (fst (runTestSuite (scripted False True True True)
        \<lparr>suite_id = ''s'', testCases = [caseA]\<rparr> idle)) \<and>
   map_option suite_status (currentSuiteRun (snd (runTestSuite (scripted False True True True)
        \<lparr>suite_id = ''s'', testCases = [caseA]\<rparr> idle))) = Some FAILED \<and>
   map_option counted (currentSuiteRun (snd (runTestSuite (scripted False True True True)
        \<lparr>suite_id = ''s'', testCases = [caseA]\<rparr> idle))) = Some 0 \<and>
   map_option totalTests (currentSuiteRun (snd (runTestSuite (scripted False True True True)
        \<lparr>suite_id = ''s'', testCases = [caseA]\<rparr> idle))) = Some 1"
  by (simp add: runner_eval caseA_def)


section \<open>The dependency gate\<close>

lemma dependenciesPassed_iff:
  "dependenciesPassed runs deps \<longleftrightarrow>
     (\<forall>dep \<in> set deps. \<exists>r. runs dep = Some r \<and> status r = PASSED)"
  by (induction deps) (auto split: option.splits)

lemma runOrBlock_status:
  assumes "currentSuiteRun s = Some sr" and "canRunTest tc s"
  shows "\<exists>s' r. runOrBlock d tc s = (None, s') \<and> testRuns s' (tc_id tc) = Some r \<and>
           (status r = PASSED \<or> status r = FAILED)"
proof -
  obtain outcome tr1 w where
    t: "tryTestCase d tc (freshRun d tc s) (browser s) (env s) = (outcome, tr1, w)"
    by (metis prod_cases3)
  show ?thesis
  proof (cases outcome)
    case None
    with t have "status tr1 = PASSED \<or> status tr1 = FAILED" by (auto dest: tryTestCase_status)
    with t None assms show ?thesis
      by (auto simp: runOrBlock_def runTestCase_def Let_def registerRun_def
            updateSuiteRunStats_def)
  next
    case (Some e)
    with t assms show ?thesis
      by (auto simp: runOrBlock_def runTestCase_def Let_def registerRun_def
            updateSuiteRunStats_def)
  qed
qed

text \<open>
  C2. In a suite run, a case is eligible exactly when every id of its \<open>dependsOn\<close> has a
  run in the registry with status PASSED, and a case without dependencies is eligible. An
  eligible case goes to \<open>runTestCase\<close> and is recorded PASSED or FAILED. An ineligible case
  is recorded BLOCKED with empty step and assertion logs and the fixed message, the blocked
  counter grows by one, and the world is the one before: no page was opened, no step and
  no assertion ran, and the record never had the status RUNNING.
\<close>

theorem dependency_gate:
  assumes "currentSuiteRun s = Some sr"
  shows "(canRunTest tc s \<longleftrightarrow>
            (\<forall>dep \<in> set (dependencies tc). \<exists>r. testRuns s dep = Some r \<and> status r = PASSED)) \<and>
         (dependencies tc = [] \<longrightarrow> canRunTest tc s) \<and>
         (canRunTest tc s \<longrightarrow>
            runOrBlock d tc s = runTestCase d tc s \<and>
            (\<exists>s' r. runOrBlock d tc s = (None, s') \<and> testRuns s' (tc_id tc) = Some r \<and>
                    (status r = PASSED \<or> status r = FAILED))) \<and>
         (\<not> canRunTest tc s \<longrightarrow>
            (\<exists>s' r. runOrBlock d tc s = (None, s') \<and>
               env s' = env s \<and> browser s' = browser s \<and>
               testRuns s' = (testRuns s)(tc_id tc \<mapsto> r) \<and>
               currentSuiteRun s' =
                 Some (sr\<lparr>suite_testRuns := suite_testRuns sr @ [r],
                          blockedTests := blockedTests sr + 1\<rparr>) \<and>
               status r = BLOCKED \<and> log_steps r = [] \<and> log_assertions r = [] \<and>
               log_message r = Some ''Test blocked due to failed dependencies'' \<and>
               screenshot r = None))"
proof (intro conjI impI)
  show "canRunTest tc s \<longleftrightarrow>
          (\<forall>dep \<in> set (dependencies tc). \<exists>r. testRuns s dep = Some r \<and> status r = PASSED)"
    by (cases "dependsOn tc")
       (auto simp: canRunTest_def dependencies_def dependenciesPassed_iff)
next
  assume "dependencies tc = []"
  then show "canRunTest tc s"
    by (cases "dependsOn tc") (auto simp: canRunTest_def dependencies_def)
next
  assume c: "canRunTest tc s"
  then show "runOrBlock d tc s = runTestCase d tc s" by (simp add: runOrBlock_def)
  from runOrBlock_status [OF assms c]
  show "\<exists>s' r. runOrBlock d tc s = (None, s') \<and> testRuns s' (tc_id tc) = Some r \<and>
                    (status r = PASSED \<or> status r = FAILED)" .
next
  assume "\<not> canRunTest tc s"
  with assms show "\<exists>s' r. runOrBlock d tc s = (None, s') \<and>
               env s' = env s \<and> browser s' = browser s \<and>
               testRuns s' = (testRuns s)(tc_id tc \<mapsto> r) \<and>
               currentSuiteRun s' =
                 Some (sr\<lparr>suite_testRuns := suite_testRuns sr @ [r],
                          blockedTests := blockedTests sr + 1\<rparr>) \<and>
               status r = BLOCKED \<and> log_steps r = [] \<and> log_assertions r = [] \<and>
               log_message r = Some ''Test blocked due to failed dependencies'' \<and>
               screenshot r = None"
    by (auto simp: runOrBlock_def recordBlockedTest_def Let_def registerRun_def
          updateSuiteRunStats_def intro!: exI)
qed


lemma caseA_then:
  "runOrBlock (scripted True True True True) caseA ready =
     (None, snd (runOrBlock (scripted True True True True) caseA ready)) \<and>
   map_option status (testRuns (snd (runOrBlock (scripted True True True True) caseA ready)) ''A'')
     = Some FAILED \<and>
   testRuns (snd (runOrBlock (scripted True True True True) caseA ready)) ''B'' = None \<and>
   env (snd (runOrBlock (scripted True True True True) caseA ready))
     = [''newPage'', ''goto'', ''screenshot''] \<and>
   currentSuiteRun (snd (runOrBlock (scripted True True True True) caseA ready)) \<noteq> None"
  by (simp add: runner_eval caseA_def)

text \<open>
  The theorem after \<open>caseA\<close> has failed: \<open>caseB\<close>, which depends on it, is blocked and the
  call list of the driver is as \<open>caseA\<close> left it; \<open>caseP\<close>, with an empty \<open>dependsOn\<close>, runs.
\<close>

theorem dependency_gate_witness:
  "\<not> canRunTest caseB (snd (runOrBlock (scripted True True True True) caseA ready)) \<and>
   env (snd (runOrBlock (scripted True True True True) caseB
          (snd (runOrBlock (scripted True True True True) caseA ready))))
     = [''newPage'', ''goto'', ''screenshot''] \<and>
   map_option status
     (testRuns (snd (runOrBlock (scripted True True True True) caseB
          (snd (runOrBlock (scripted True True True True) caseA ready)))) ''B'') = Some BLOCKED \<and>
   canRunTest caseP ready \<and>
   map_option status (testRuns (snd (runOrBlock (scripted True True True True) caseP ready)) ''P'')
     = Some PASSED"
proof -
  let ?d = "scripted True True True True"
  let ?sA = "snd (runOrBlock ?d caseA ready)"
  obtain sr where sr: "currentSuiteRun ?sA = Some sr" using caseA_then by blast
  note gB = dependency_gate [OF sr, of caseB ?d]
  have deps: "dependencies caseB = [''A'']" by (simp add: dependencies_def caseB_def)
  have nb: "\<not> canRunTest caseB ?sA" using gB deps caseA_then by auto
  with gB obtain s' r where
    b: "runOrBlock ?d caseB ?sA = (None, s')" "env s' = env ?sA"
       "testRuns s' = (testRuns ?sA)(tc_id caseB \<mapsto> r)" "status r = BLOCKED"
    by blast
  have idB: "tc_id caseB = ''B''" by (simp add: caseB_def)
  obtain sr0 where sr0: "currentSuiteRun ready = Some sr0" by (simp add: ready_def startSuiteRun_def)
  note gP = dependency_gate [OF sr0, of caseP ?d]
  have "dependencies caseP = []" by (simp add: dependencies_def caseP_def)
  with gP have cp: "canRunTest caseP ready" by blast
  have "map_option status (testRuns (snd (runOrBlock ?d caseP ready)) ''P'') = Some PASSED"
    by (simp add: runner_eval caseP_def)
  with nb b idB cp caseA_then show ?thesis by simp
qed

section \<open>The loops of runTestCase\<close>

lemma runSteps_append:
  "runSteps d (xs @ ys) tr w =
     (case runSteps d xs tr w of
        (None, tr1, w1) \<Rightarrow> runSteps d ys tr1 w1
      | (Some e, tr1, w1) \<Rightarrow> (Some e, tr1, w1))"
  by (induction xs arbitrary: tr w) (auto split: prod.splits option.splits sum.splits)

lemma runSteps_all_succeed:
  "execSteps d sts w = Some w' \<Longrightarrow>
   \<exists>logs. runSteps d sts tr w = (None, tr\<lparr>log_steps := log_steps tr @ logs\<rparr>, w') \<and>
          map stepId logs = map step_id sts \<and>
          map step_success logs = replicate (length sts) True"
proof (induction sts arbitrary: tr w)
  case Nil
  then show ?case by simp
next
  case (Cons st sts)
  from Cons.prems obtain w1 where
    1: "executeStep d st w = (None, w1)" "execSteps d sts w1 = Some w'"
    by (auto split: prod.splits option.splits)
  let ?entry = "\<lparr>stepId = step_id st, step_success = True, step_error = None,
                  step_timestamp = now d w1\<rparr>"
  from Cons.IH [OF 1(2), of "tr\<lparr>log_steps := log_steps tr @ [?entry]\<rparr>"] obtain logs where
    2: "runSteps d sts (tr\<lparr>log_steps := log_steps tr @ [?entry]\<rparr>) w1
          = (None, tr\<lparr>log_steps := log_steps tr @ [?entry]\<rparr>
                     \<lparr>log_steps := log_steps (tr\<lparr>log_steps := log_steps tr @ [?entry]\<rparr>) @ logs\<rparr>, w')"
       "map stepId logs = map step_id sts" "map step_success logs = replicate (length sts) True"
    by blast
  show ?case
    by (rule exI [of _ "?entry # logs"]) (use 1 2 in simp)
qed

lemma runSteps_one_fails:
  "executeStep d st w = (Some err, w2) \<Longrightarrow>
   runSteps d (st # post) tr w =
     (case captureScreenshot d w2 of
        (Inl err2, w3) \<Rightarrow> (Some err2, tr, w3)
      | (Inr shot, w3) \<Rightarrow>
          (Some err,
           tr\<lparr>screenshot := Some shot,
              log_steps := log_steps tr @
                [\<lparr>stepId = step_id st, step_success = False,
                  step_error = Some (message err), step_timestamp = now d w3\<rparr>]\<rparr>,
           w3))"
  by simp

lemma runSteps_first_failure:
  assumes "execSteps d pre w = Some w1" and "executeStep d st w1 = (Some err, w2)"
  shows "\<exists>logs. map stepId logs = map step_id pre \<and>
           map step_success logs = replicate (length pre) True \<and>
           runSteps d (pre @ st # post) tr w =
             (case captureScreenshot d w2 of
                (Inl err2, w3) \<Rightarrow> (Some err2, tr\<lparr>log_steps := log_steps tr @ logs\<rparr>, w3)
              | (Inr shot, w3) \<Rightarrow>
                  (Some err,
                   tr\<lparr>screenshot := Some shot,
                      log_steps := log_steps tr @ logs @
                        [\<lparr>stepId = step_id st, step_success = False,
                          step_error = Some (message err), step_timestamp = now d w3\<rparr>]\<rparr>,
                   w3))"
proof -
  from runSteps_all_succeed [OF assms(1), of tr] obtain logs where
    l: "runSteps d pre tr w = (None, tr\<lparr>log_steps := log_steps tr @ logs\<rparr>, w1)"
       "map stepId logs = map step_id pre" "map step_success logs = replicate (length pre) True"
    by blast
  show ?thesis
    by (rule exI [of _ logs])
       (use l assms(2) in \<open>simp add: runSteps_append split: prod.splits sum.splits\<close>)
qed

lemma runAssertions_eval:
  "evalAssertions d as w = (outs, w') \<Longrightarrow>
   \<exists>logs. runAssertions d as failed tr w =
            (failed \<or> (\<exists>out \<in> set outs. out \<noteq> None),
             tr\<lparr>log_assertions := log_assertions tr @ logs\<rparr>, w') \<and>
          map assertionId logs = map assertion_id as \<and>
          map assertion_success logs = map (\<lambda>out. out = None) outs \<and>
          map assertion_error logs = map (map_option message) outs"
proof (induction as arbitrary: failed tr w outs)
  case Nil
  then show ?case by simp
next
  case (Cons a as)
  obtain out w1 where 1: "executeAssertion d a w = (out, w1)"
    by (cases "executeAssertion d a w")
  obtain outs' where 2: "evalAssertions d as w1 = (outs', w')" "outs = out # outs'"
    using Cons.prems 1 by (auto split: prod.splits)
  let ?entry = "\<lparr>assertionId = assertion_id a, assertion_success = (out = None),
                  assertion_error = map_option message out, assertion_timestamp = now d w1\<rparr>"
  let ?tr1 = "tr\<lparr>log_assertions := log_assertions tr @ [?entry]\<rparr>"
  from Cons.IH [OF 2(1), of "failed \<or> out \<noteq> None" ?tr1] obtain logs where
    3: "runAssertions d as (failed \<or> out \<noteq> None) ?tr1 w1 =
            ((failed \<or> out \<noteq> None) \<or> (\<exists>out \<in> set outs'. out \<noteq> None),
             ?tr1\<lparr>log_assertions := log_assertions ?tr1 @ logs\<rparr>, w')"
       "map assertionId logs = map assertion_id as"
       "map assertion_success logs = map (\<lambda>out. out = None) outs'"
       "map assertion_error logs = map (map_option message) outs'"
    by blast
  show ?case
    by (rule exI [of _ "?entry # logs"]) (use 1 2 3 in \<open>cases out; auto\<close>)
qed

lemma evalAssertions_length:
  "evalAssertions d as w = (outs, w') \<Longrightarrow> length outs = length as"
  by (induction as arbitrary: w outs) (auto split: prod.splits)


lemma runTestCase_of_try:
  assumes "currentSuiteRun s = Some sr"
    and "tryTestCase d tc (freshRun d tc s) (browser s) (env s) = (outcome, tr1, w)"
  shows "\<exists>s' r. runTestCase d tc s = (None, s') \<and> env s' = w \<and>
           testRuns s' (tc_id tc) = Some r \<and>
           status r = (case outcome of None \<Rightarrow> status tr1 | Some e \<Rightarrow> FAILED) \<and>
           errorMessage r =
             (case outcome of None \<Rightarrow> errorMessage tr1 | Some e \<Rightarrow> Some (message e)) \<and>
           screenshot r = screenshot tr1 \<and> log_steps r = log_steps tr1 \<and>
           log_assertions r = log_assertions tr1"
  using assms
  by (cases outcome)
     (auto simp: runTestCase_def freshRun_def Let_def registerRun_def updateSuiteRunStats_def
        split: TestStatus.splits)

text \<open>
  C3, as amended. Let the runner have a browser and a suite run, and let the page open.
  When the steps before some step succeed in list order and that step fails, a screenshot
  is attempted: if it succeeds the case is recorded FAILED with the screenshot, the error of
  the step, one successful log entry for each earlier step and a failed entry for that
  step; if the screenshot throws, the case is recorded FAILED with the error of the
  screenshot and without a log entry for the failing step. In both cases no later step and
  no assertion is executed: the world is the one the screenshot left. When all steps
  succeed, every assertion is evaluated in order and logged with its outcome, and then the
  page is closed: if closing succeeds the status is FAILED when some assertion failed and
  PASSED otherwise; if closing throws, the case is FAILED with the error of the close.
\<close>

theorem runTestCase_protocol:
  assumes "currentSuiteRun s = Some sr" and "browser s" and "newPage d (env s) = (None, w0)"
  shows
    "(\<forall>pre st post w1 err w2 shot w3.
        steps tc = pre @ st # post \<longrightarrow> execSteps d pre w0 = Some w1 \<longrightarrow>
        executeStep d st w1 = (Some err, w2) \<longrightarrow> captureScreenshot d w2 = (Inr shot, w3) \<longrightarrow>
        (\<exists>s' r. runTestCase d tc s = (None, s') \<and> env s' = w3 \<and>
           testRuns s' (tc_id tc) = Some r \<and>
           status r = FAILED \<and> errorMessage r = Some (message err) \<and>
           screenshot r = Some shot \<and>
           map stepId (log_steps r) = map step_id (pre @ [st]) \<and>
           map step_success (log_steps r) = replicate (length pre) True @ [False] \<and>
           step_error (last (log_steps r)) = Some (message err) \<and>
           log_assertions r = [])) \<and>
     (\<forall>pre st post w1 err w2 err2 w3.
        steps tc = pre @ st # post \<longrightarrow> execSteps d pre w0 = Some w1 \<longrightarrow>
        executeStep d st w1 = (Some err, w2) \<longrightarrow> captureScreenshot d w2 = (Inl err2, w3) \<longrightarrow>
        (\<exists>s' r. runTestCase d tc s = (None, s') \<and> env s' = w3 \<and>
           testRuns s' (tc_id tc) = Some r \<and>
           status r = FAILED \<and> errorMessage r = Some (message err2) \<and>
           screenshot r = None \<and>
           map stepId (log_steps r) = map step_id pre \<and>
           map step_success (log_steps r) = replicate (length pre) True \<and>
           log_assertions r = [])) \<and>
     (\<forall>w1 outs w2 w3.
        execSteps d (steps tc) w0 = Some w1 \<longrightarrow>
        evalAssertions d (assertions tc) w1 = (outs, w2) \<longrightarrow> closePage d w2 = (None, w3) \<longrightarrow>
        (\<exists>s' r. runTestCase d tc s = (None, s') \<and> env s' = w3 \<and>
           testRuns s' (tc_id tc) = Some r \<and>
           map stepId (log_steps r) = map step_id (steps tc) \<and>
           map step_success (log_steps r) = replicate (length (steps tc)) True \<and>
           map assertionId (log_assertions r) = map assertion_id (assertions tc) \<and>
           map assertion_success (log_assertions r) = map (\<lambda>out. out = None) outs \<and>
           status r = (if \<exists>out \<in> set outs. out \<noteq> None then FAILED else PASSED))) \<and>
     (\<forall>w1 outs w2 e w3.
        execSteps d (steps tc) w0 = Some w1 \<longrightarrow>
        evalAssertions d (assertions tc) w1 = (outs, w2) \<longrightarrow> closePage d w2 = (Some e, w3) \<longrightarrow>
        (\<exists>s' r. runTestCase d tc s = (None, s') \<and> env s' = w3 \<and>
           testRuns s' (tc_id tc) = Some r \<and>
           map stepId (log_steps r) = map step_id (steps tc) \<and>
           map assertionId (log_assertions r) = map assertion_id (assertions tc) \<and>
           map assertion_success (log_assertions r) = map (\<lambda>out. out = None) outs \<and>
           status r = FAILED \<and> errorMessage r = Some (message e)))"
proof (intro conjI allI impI)
  fix pre st post w1 err w2 shot w3
  assume a: "steps tc = pre @ st # post" "execSteps d pre w0 = Some w1"
    "executeStep d st w1 = (Some err, w2)" "captureScreenshot d w2 = (Inr shot, w3)"
  from runSteps_first_failure [OF a(2,3), of post "freshRun d tc s"] a(4) obtain logs where
    l: "map stepId logs = map step_id pre" "map step_success logs = replicate (length pre) True"
       "runSteps d (pre @ st # post) (freshRun d tc s) w0 =
          (Some err,
           freshRun d tc s\<lparr>screenshot := Some shot,
              log_steps := log_steps (freshRun d tc s) @ logs @
                [\<lparr>stepId = step_id st, step_success = False,
                  step_error = Some (message err), step_timestamp = now d w3\<rparr>]\<rparr>,
           w3)"
    by auto
  have t: "tryTestCase d tc (freshRun d tc s) (browser s) (env s) =
          (Some err,
           freshRun d tc s\<lparr>screenshot := Some shot,
              log_steps := log_steps (freshRun d tc s) @ logs @
                [\<lparr>stepId = step_id st, step_success = False,
                  step_error = Some (message err), step_timestamp = now d w3\<rparr>]\<rparr>,
           w3)"
    using assms a(1) l(3) by (simp add: tryTestCase_def)
  from runTestCase_of_try [OF assms(1) t] l(1,2)
  show "\<exists>s' r. runTestCase d tc s = (None, s') \<and> env s' = w3 \<and>
           testRuns s' (tc_id tc) = Some r \<and>
           status r = FAILED \<and> errorMessage r = Some (message err) \<and>
           screenshot r = Some shot \<and>
           map stepId (log_steps r) = map step_id (pre @ [st]) \<and>
           map step_success (log_steps r) = replicate (length pre) True @ [False] \<and>
           step_error (last (log_steps r)) = Some (message err) \<and>
           log_assertions r = []"
    by (auto simp: freshRun_def)
next
  fix pre st post w1 err w2 err2 w3
  assume a: "steps tc = pre @ st # post" "execSteps d pre w0 = Some w1"
    "executeStep d st w1 = (Some err, w2)" "captureScreenshot d w2 = (Inl err2, w3)"
  from runSteps_first_failure [OF a(2,3), of post "freshRun d tc s"] a(4) obtain logs where
    l: "map stepId logs = map step_id pre" "map step_success logs = replicate (length pre) True"
       "runSteps d (pre @ st # post) (freshRun d tc s) w0 =
          (Some err2, freshRun d tc s\<lparr>log_steps := log_steps (freshRun d tc s) @ logs\<rparr>, w3)"
    by auto
  have t: "tryTestCase d tc (freshRun d tc s) (browser s) (env s) =
          (Some err2, freshRun d tc s\<lparr>log_steps := log_steps (freshRun d tc s) @ logs\<rparr>, w3)"
    using assms a(1) l(3) by (simp add: tryTestCase_def)
  from runTestCase_of_try [OF assms(1) t] l(1,2)
  show "\<exists>s' r. runTestCase d tc s = (None, s') \<and> env s' = w3 \<and>
           testRuns s' (tc_id tc) = Some r \<and>
           status r = FAILED \<and> errorMessage r = Some (message err2) \<and>
           screenshot r = None \<and>
           map stepId (log_steps r) = map step_id pre \<and>
           map step_success (log_steps r) = replicate (length pre) True \<and>
           log_assertions r = []"
    by (auto simp: freshRun_def)
next
  fix w1 outs w2 w3
  assume a: "execSteps d (steps tc) w0 = Some w1"
    "evalAssertions d (assertions tc) w1 = (outs, w2)" "closePage d w2 = (None, w3)"
  from runSteps_all_succeed [OF a(1), of "freshRun d tc s"] obtain logs where
    l: "runSteps d (steps tc) (freshRun d tc s) w0 =
          (None, freshRun d tc s\<lparr>log_steps := log_steps (freshRun d tc s) @ logs\<rparr>, w1)"
       "map stepId logs = map step_id (steps tc)"
       "map step_success logs = replicate (length (steps tc)) True"
    by blast
  let ?tr1 = "freshRun d tc s\<lparr>log_steps := log_steps (freshRun d tc s) @ logs\<rparr>"
  from runAssertions_eval [OF a(2), of False ?tr1] obtain alogs where
    al: "runAssertions d (assertions tc) False ?tr1 w1 =
            (False \<or> (\<exists>out \<in> set outs. out \<noteq> None),
             ?tr1\<lparr>log_assertions := log_assertions ?tr1 @ alogs\<rparr>, w2)"
        "map assertionId alogs = map assertion_id (assertions tc)"
        "map assertion_success alogs = map (\<lambda>out. out = None) outs"
    by blast
  have t: "tryTestCase d tc (freshRun d tc s) (browser s) (env s) =
          (None,
           ?tr1\<lparr>log_assertions := log_assertions ?tr1 @ alogs\<rparr>
              \<lparr>status := if \<exists>out \<in> set outs. out \<noteq> None then FAILED else PASSED\<rparr>,
           w3)"
    using assms l(1) al(1) a(3) by (simp add: tryTestCase_def)
  from runTestCase_of_try [OF assms(1) t] l(2,3) al(2,3)
  show "\<exists>s' r. runTestCase d tc s = (None, s') \<and> env s' = w3 \<and>
           testRuns s' (tc_id tc) = Some r \<and>
           map stepId (log_steps r) = map step_id (steps tc) \<and>
           map step_success (log_steps r) = replicate (length (steps tc)) True \<and>
           map assertionId (log_assertions r) = map assertion_id (assertions tc) \<and>
           map assertion_success (log_assertions r) = map (\<lambda>out. out = None) outs \<and>
           status r = (if \<exists>out \<in> set outs. out \<noteq> None then FAILED else PASSED)"
    by (fastforce simp: freshRun_def)
next
  fix w1 outs w2 e w3
  assume a: "execSteps d (steps tc) w0 = Some w1"
    "evalAssertions d (assertions tc) w1 = (outs, w2)" "closePage d w2 = (Some e, w3)"
  from runSteps_all_succeed [OF a(1), of "freshRun d tc s"] obtain logs where
    l: "runSteps d (steps tc) (freshRun d tc s) w0 =
          (None, freshRun d tc s\<lparr>log_steps := log_steps (freshRun d tc s) @ logs\<rparr>, w1)"
       "map stepId logs = map step_id (steps tc)"
       "map step_success logs = replicate (length (steps tc)) True"
    by blast
  let ?tr1 = "freshRun d tc s\<lparr>log_steps := log_steps (freshRun d tc s) @ logs\<rparr>"
  from runAssertions_eval [OF a(2), of False ?tr1] obtain alogs where
    al: "runAssertions d (assertions tc) False ?tr1 w1 =
            (False \<or> (\<exists>out \<in> set outs. out \<noteq> None),
             ?tr1\<lparr>log_assertions := log_assertions ?tr1 @ alogs\<rparr>, w2)"
        "map assertionId alogs = map assertion_id (assertions tc)"
        "map assertion_success alogs = map (\<lambda>out. out = None) outs"
    by blast
  have t: "tryTestCase d tc (freshRun d tc s) (browser s) (env s) =
          (Some e, ?tr1\<lparr>log_assertions := log_assertions ?tr1 @ alogs\<rparr>, w3)"
    using assms l(1) al(1) a(3) by (simp add: tryTestCase_def)
  from runTestCase_of_try [OF assms(1) t] l(2,3) al(2,3)
  show "\<exists>s' r. runTestCase d tc s = (None, s') \<and> env s' = w3 \<and>
           testRuns s' (tc_id tc) = Some r \<and>
           map stepId (log_steps r) = map step_id (steps tc) \<and>
           map assertionId (log_assertions r) = map assertion_id (assertions tc) \<and>
           map assertion_success (log_assertions r) = map (\<lambda>out. out = None) outs \<and>
           status r = FAILED \<and> errorMessage r = Some (message e)"
    by (auto simp: freshRun_def)
qed

lemma caseA_steps:
  "newPage (scripted True True True True) (env ready) = (None, [''newPage''])"
  "steps caseA = [] @ aStep ''a1'' A_navigate (css ''body'') (Some ''http://down'') # []"
  "execSteps (scripted True True True True) [] [''newPage''] = Some [''newPage'']"
  "executeStep (scripted True True True True)
     (aStep ''a1'' A_navigate (css ''body'') (Some ''http://down'')) [''newPage'']
       = (Some (Error ''net::ERR_CONNECTION_REFUSED''), [''newPage'', ''goto''])"
  "captureScreenshot (scripted True True True True) [''newPage'', ''goto'']
       = (Inr ''data:image/png;base64,iVBORw0KGgo='', [''newPage'', ''goto'', ''screenshot''])"
  by (simp_all add: runner_eval caseA_def)

lemma caseQ_steps:
  "execSteps (scripted True True True True) (steps caseQ) [''newPage''] = Some [''newPage'']"
  "evalAssertions (scripted True True True True) (assertions caseQ) [''newPage'']
     = ([Some (Error ''Timeout exceeded''), None],
        [''newPage'', ''waitForSelector'', ''waitForSelector''])"
  "closePage (scripted True True True True) [''newPage'', ''waitForSelector'', ''waitForSelector'']
     = (None, [''newPage'', ''waitForSelector'', ''waitForSelector'', ''close''])"
  by (simp_all add: runner_eval caseQ_def)

text \<open>
  The theorem at \<open>caseA\<close>, whose only step fails, and at \<open>caseQ\<close>, whose first assertion
  fails and whose second one is evaluated all the same.
\<close>

theorem runTestCase_protocol_witness:
  "(\<exists>s' r. runTestCase (scripted True True True True) caseA ready = (None, s') \<and>
       env s' = [''newPage'', ''goto'', ''screenshot''] \<and>
       testRuns s' ''A'' = Some r \<and> status r = FAILED \<and>
       screenshot r = Some ''data:image/png;base64,iVBORw0KGgo='' \<and>
       map stepId (log_steps r) = [''a1''] \<and> map step_success (log_steps r) = [False] \<and>
       log_assertions r = []) \<and>
   (\<exists>s' r. runTestCase (scripted True True True True) caseQ ready = (None, s') \<and>
       env s' = [''newPage'', ''waitForSelector'', ''waitForSelector'', ''close''] \<and>
       testRuns s' ''Q'' = Some r \<and> status r = FAILED \<and>
       map assertionId (log_assertions r) = [''q1'', ''q2''] \<and>
       map assertion_success (log_assertions r) = [False, True])"
proof -
  let ?d = "scripted True True True True"
  obtain sr where sr: "currentSuiteRun ready = Some sr"
    by (simp add: ready_def startSuiteRun_def)
  have b: "browser ready" by (simp add: ready_def startSuiteRun_def idle_def)
  note np = caseA_steps(1)
  note pA = runTestCase_protocol [OF sr b np, of caseA, THEN conjunct1, rule_format,
      OF caseA_steps(2) caseA_steps(3) caseA_steps(4) caseA_steps(5)]
  note pQ = runTestCase_protocol [OF sr b np, of caseQ, THEN conjunct2, THEN conjunct2,
      THEN conjunct1, rule_format, OF caseQ_steps(1) caseQ_steps(2) caseQ_steps(3)]
  from pA have "\<exists>s' r. runTestCase ?d caseA ready = (None, s') \<and>
       env s' = [''newPage'', ''goto'', ''screenshot''] \<and>
       testRuns s' ''A'' = Some r \<and> status r = FAILED \<and>
       screenshot r = Some ''data:image/png;base64,iVBORw0KGgo='' \<and>
       map stepId (log_steps r) = [''a1''] \<and> map step_success (log_steps r) = [False] \<and>
       log_assertions r = []"
    by (auto simp: caseA_def aStep_def)
  moreover from pQ have "\<exists>s' r. runTestCase ?d caseQ ready = (None, s') \<and>
       env s' = [''newPage'', ''waitForSelector'', ''waitForSelector'', ''close''] \<and>
       testRuns s' ''Q'' = Some r \<and> status r = FAILED \<and>
       map assertionId (log_assertions r) = [''q1'', ''q2''] \<and>
       map assertion_success (log_assertions r) = [False, True]"
    by (auto simp: caseQ_def)
  ultimately show ?thesis by (rule conjI)
qed

text \<open>
  C3 as stated makes a case PASSED when all its steps succeed and no assertion fails, and
  logs a failing step against that step. On a driver whose \<open>page.close()\<close> throws, both
  steps and all three assertions of \<open>caseP\<close> succeed and the case is recorded FAILED. On a
  driver whose screenshot throws, the failing step of \<open>caseA\<close> gets no log entry and the
  case carries the error of the screenshot.
\<close>

theorem runTestCase_close_failure:
  "map_option (map step_success \<circ> log_steps)
     (testRuns (snd (runTestCase (scripted True False True True) caseP ready)) ''P'')
     = Some [True, True] \<and>
   map_option (map assertion_success \<circ> log_assertions)
     (testRuns (snd (runTestCase (scripted True False True True) caseP ready)) ''P'')
     = Some [True, True, True] \<and>
   map_option status
     (testRuns (snd (runTestCase (scripted True False True True) caseP ready)) ''P'')
     = Some FAILED \<and>
   map_option (map stepId \<circ> log_steps)
     (testRuns (snd (runTestCase (scripted True True False True) caseA ready)) ''A'')
     = Some [] \<and>
   map_option errorMessage
     (testRuns (snd (runTestCase (scripted True True False True) caseA ready)) ''A'')
     = Some (Some ''screenshot failed'')"
  by (simp add: runner_eval caseP_def caseA_def)

section \<open>Assertions without a selector\<close>

lemma buildSelector_Some: "\<exists>q. buildSelector (Some sel) = Inr q"
  by (simp add: buildSelector_def split: option.splits SelectorType.splits)

lemma executeAssertion_no_check:
  assumes "assertion_selector a = None \<or> assertionType a = As_urlEquals"
  shows "executeAssertion d a w = (None, w)"
proof (cases "assertion_selector a")
  case None
  then show ?thesis by (simp add: executeAssertion_def)
next
  case (Some sel)
  with assms have u: "assertionType a = As_urlEquals" by simp
  obtain q where "buildSelector (Some sel) = Inr q" using buildSelector_Some by blast
  with Some u show ?thesis by (simp add: executeAssertion_def)
qed

lemma evalAssertions_no_check:
  "evalAssertions d as w = (outs, w') \<Longrightarrow> i < length as \<Longrightarrow>
   assertion_selector (as ! i) = None \<or> assertionType (as ! i) = As_urlEquals \<Longrightarrow>
   outs ! i = None"
proof (induction as arbitrary: w outs i)
  case Nil
  then show ?case by simp
next
  case (Cons a as)
  obtain out w1 where 1: "executeAssertion d a w = (out, w1)"
    by (cases "executeAssertion d a w")
  obtain outs' where 2: "evalAssertions d as w1 = (outs', w')" "outs = out # outs'"
    using Cons.prems(1) 1 by (auto split: prod.splits)
  show ?case
  proof (cases i)
    case 0
    with Cons.prems(3) have "executeAssertion d a w = (None, w)"
      by (simp add: executeAssertion_no_check)
    with 1 2 0 show ?thesis by simp
  next
    case (Suc j)
    with Cons.prems Cons.IH [OF 2(1), of j] 2 show ?thesis by simp
  qed
qed

text \<open>
  C10. In services/runTScrawler.ts an assertion without a selector makes \<open>executeAssertion\<close>
  return at once, whatever its type and expected value, with the world untouched; so does
  a \<open>urlEquals\<close> assertion with or without a selector, for which the switch has no case.
  In the assertion loop every such assertion gets a log entry with its id, success and no
  error.
\<close>

theorem selectorless_assertion_passes:
  "(assertion_selector a = None \<longrightarrow> executeAssertion d a w = (None, w)) \<and>
   (assertionType a = As_urlEquals \<longrightarrow> executeAssertion d a w = (None, w)) \<and>
   (\<forall>as failed tr w0 failed' tr' w' i.
      runAssertions d as failed tr w0 = (failed', tr', w') \<longrightarrow> i < length as \<longrightarrow>
      assertion_selector (as ! i) = None \<or> assertionType (as ! i) = As_urlEquals \<longrightarrow>
      length (log_assertions tr') = length (log_assertions tr) + length as \<and>
      assertionId (log_assertions tr' ! (length (log_assertions tr) + i)) = assertion_id (as ! i) \<and>
      assertion_success (log_assertions tr' ! (length (log_assertions tr) + i)) \<and>
      assertion_error (log_assertions tr' ! (length (log_assertions tr) + i)) = None)"
proof -
  have 1: "assertion_selector a = None \<longrightarrow> executeAssertion d a w = (None, w)"
    by (simp add: executeAssertion_no_check)
  have 2: "assertionType a = As_urlEquals \<longrightarrow> executeAssertion d a w = (None, w)"
    by (simp add: executeAssertion_no_check)
  have 3: "\<forall>as failed tr w0 failed' tr' w' i.
      runAssertions d as failed tr w0 = (failed', tr', w') \<longrightarrow> i < length as \<longrightarrow>
      assertion_selector (as ! i) = None \<or> assertionType (as ! i) = As_urlEquals \<longrightarrow>
      length (log_assertions tr') = length (log_assertions tr) + length as \<and>
      assertionId (log_assertions tr' ! (length (log_assertions tr) + i)) = assertion_id (as ! i) \<and>
      assertion_success (log_assertions tr' ! (length (log_assertions tr) + i)) \<and>
      assertion_error (log_assertions tr' ! (length (log_assertions tr) + i)) = None"
  proof (intro allI impI)
    fix as failed tr w0 failed' tr' w' i
    assume run: "runAssertions d as failed tr w0 = (failed', tr', w')"
      and i: "i < length as"
      and nc: "assertion_selector (as ! i) = None \<or> assertionType (as ! i) = As_urlEquals"
    obtain outs w2 where ev: "evalAssertions d as w0 = (outs, w2)"
      by (cases "evalAssertions d as w0")
    from runAssertions_eval [OF ev, of failed tr] run obtain logs where
      l: "tr' = tr\<lparr>log_assertions := log_assertions tr @ logs\<rparr>"
         "map assertionId logs = map assertion_id as"
         "map assertion_success logs = map (\<lambda>out. out = None) outs"
         "map assertion_error logs = map (map_option message) outs"
      by auto
    have len: "length logs = length as" "length outs = length as"
      using l(2) evalAssertions_length [OF ev] by (auto dest: map_eq_imp_length_eq)
    have none: "outs ! i = None" using evalAssertions_no_check [OF ev i nc] .
    have "assertionId (logs ! i) = assertion_id (as ! i)"
      using arg_cong [OF l(2), of "\<lambda>xs. xs ! i"] i len by simp
    moreover have "assertion_success (logs ! i) = (outs ! i = None)"
      using arg_cong [OF l(3), of "\<lambda>xs. xs ! i"] i len by simp
    moreover have "assertion_error (logs ! i) = map_option message (outs ! i)"
      using arg_cong [OF l(4), of "\<lambda>xs. xs ! i"] i len by simp
    ultimately
    show "length (log_assertions tr') = length (log_assertions tr) + length as \<and>
        assertionId (log_assertions tr' ! (length (log_assertions tr) + i)) = assertion_id (as ! i) \<and>
        assertion_success (log_assertions tr' ! (length (log_assertions tr) + i)) \<and>
        assertion_error (log_assertions tr' ! (length (log_assertions tr) + i)) = None"
      using l(1) len none i by (simp add: nth_append)
  qed
  from 1 2 3 show ?thesis by (intro conjI)
qed


text \<open>
  The theorem at the second assertion of \<open>caseP\<close>, a \<open>urlEquals\<close> without selector that
  expects another address than the page has: it is logged as passed.
\<close>

theorem selectorless_assertion_passes_witness:
  "assertion_selector (assertions caseP ! 1) = None \<and>
   expectedValue (assertions caseP ! 1) \<noteq> Some (pageUrl (scripted True True True True) []) \<and>
   executeAssertion (scripted True True True True) (assertions caseP ! 1) [] = (None, []) \<and>
   assertion_success
     (log_assertions (fst (snd (runAssertions (scripted True True True True) (assertions caseP)
        False (freshRun (scripted True True True True) caseP ready) []))) ! 1)"
proof -
  let ?d = "scripted True True True True"
  let ?tr = "freshRun ?d caseP ready"
  let ?run = "runAssertions ?d (assertions caseP) False ?tr []"
  have sel: "assertion_selector (assertions caseP ! 1) = None" by (simp add: caseP_def)
  have url: "expectedValue (assertions caseP ! 1) \<noteq> Some (pageUrl ?d [])"
    by (simp add: caseP_def scripted_def)
  note t = selectorless_assertion_passes [of "assertions caseP ! 1" ?d "[]"]
  from t sel have ex: "executeAssertion ?d (assertions caseP ! 1) [] = (None, [])" by blast
  have run: "?run = (fst ?run, fst (snd ?run), snd (snd ?run))" by simp
  have i: "(1::nat) < length (assertions caseP)" by (simp add: caseP_def)
  from t [THEN conjunct2, THEN conjunct2, rule_format, OF run i disjI1 [OF sel]]
  have "assertion_success
     (log_assertions (fst (snd ?run)) ! (length (log_assertions ?tr) + 1))"
    by blast
  then have "assertion_success (log_assertions (fst (snd ?run)) ! 1)"
    by (simp add: freshRun_def)
  with sel url ex show ?thesis by blast
qed

section \<open>Steps without a value\<close>

lemma executeStep_routes_no_value:
  assumes "step_action step = A_type \<or> step_action step = A_select"
    and "resolveValue step = None"
  shows "executeStep_routes d step w =
           (Some (Error (''No value provided for '' @ action_name (step_action step)
                    @ '' action in step '' @ step_id step)), w)"
  using assms by (auto simp: executeStep_routes_def Let_def)

lemma runSteps_routes_no_value:
  assumes "step \<in> set sts"
    and "step_action step = A_type \<or> step_action step = A_select"
    and "resolveValue step = None"
  shows "\<exists>e tr' w'. runSteps_routes d cid sts tr w = (Some e, tr', w')"
  using assms(1)
proof (induction sts arbitrary: tr w)
  case Nil
  then show ?case by simp
next
  case (Cons st sts)
  obtain out w1 where 1: "executeStep_routes d st w = (out, w1)"
    by (cases "executeStep_routes d st w")
  show ?case
  proof (cases out)
    case (Some err)
    with 1 show ?thesis by (auto split: prod.splits sum.splits)
  next
    case None
    with 1 executeStep_routes_no_value [OF assms(2,3), of d w] have "st \<noteq> step" by auto
    with Cons.prems have "step \<in> set sts" by simp
    from Cons.IH [OF this] 1 None show ?thesis by simp
  qed
qed

text \<open>
  \<open>captureScreenshot\<close> returns exactly when the directories exist, the page wrote its
  screenshot to the file and the file could be read back.
\<close>

lemma captureScreenshot_routes_Inr:
  "(captureScreenshot_routes d cid w = (Inr shot, w')) =
   (\<exists>wa wb png. mkdirs d w = (None, wa) \<and>
      screenshotFile d (cid, now d wa) wa = (None, wb) \<and>
      readFile d (cid, now d wa) wb = (Inr png, w') \<and>
      shot = ''data:image/png;base64,'' @ png)"
  by (auto simp: captureScreenshot_routes_def Let_def split: prod.splits option.splits sum.splits)

text \<open>
  \<open>runTestCase\<close> after a failed step loop: the handler's screenshot, its log file, the log
  file of the \<open>finally\<close> block, and only then the registration.
\<close>

lemma runTestCase_routes_failed_steps:
  fixes d :: "'w driver" and s :: "'w runner"
  assumes "browser s" and "currentSuiteRun s = Some sr"
    and "newPage d (env s) = (None, w0)"
    and "runSteps_routes d (tc_id tc) (steps tc) (freshRun d tc s) w0 = (Some e, tr1, w1)"
  shows "runTestCase_routes d tc s =
     (case captureScreenshot_routes d (tc_id tc) w1 of
        (Inl e2, w2) \<Rightarrow>
          (case saveTestLogs d
                  (finishedRun d (tr1\<lparr>status := FAILED, errorMessage := Some (message e)\<rparr>) w2) w2 of
             (Some e3, w3) \<Rightarrow> (Some e3, s\<lparr>env := w3\<rparr>)
           | (None, w3) \<Rightarrow> (Some e2, s\<lparr>env := w3\<rparr>))
      | (Inr shot, w2) \<Rightarrow>
          (case saveTestLogs d (failedRun tr1 e shot) w2 of
             (Some e3, w3) \<Rightarrow>
               (case saveTestLogs d (finishedRun d (failedRun tr1 e shot) w3) w3 of
                  (Some e4, w4) \<Rightarrow> (Some e4, s\<lparr>env := w4\<rparr>)
                | (None, w4) \<Rightarrow> (Some e3, s\<lparr>env := w4\<rparr>))
           | (None, w3) \<Rightarrow>
               (case saveTestLogs d (finishedRun d (failedRun tr1 e shot) w3) w3 of
                  (Some e4, w4) \<Rightarrow>
                    (Some e4, s\<lparr>env := w4,
                       currentSuiteRun := Some (sr\<lparr>failedTests := failedTests sr + 1\<rparr>)\<rparr>)
                | (None, w4) \<Rightarrow>
                    (None, s\<lparr>env := w4,
                       testRuns := (testRuns s)(tc_id tc \<mapsto> finishedRun d (failedRun tr1 e shot) w3),
                       currentSuiteRun := Some
                         (sr\<lparr>failedTests := failedTests sr + 1,
                            suite_testRuns := suite_testRuns sr
                              @ [finishedRun d (failedRun tr1 e shot) w3]\<rparr>)\<rparr>))))"
  using assms
  by (simp add: runTestCase_routes_def executeTestCase_routes_def tryTestCase_routes_def
        catchTestCase_routes_def finallyTestCase_routes_def registerRun_def
        updateSuiteRunStats_def failedRun_def finishedRun_def Let_def
      split: prod.splits sum.splits option.splits)


text \<open>
  C6, as amended. In the step executor of routes/crawler.ts (the one that resolves a value
  from the literal or the fixtures), a \<open>type\<close> or \<open>select\<close> step whose resolved value is
  absent fails with the error "No value provided for ... action in step <id>", and the
  world is untouched: no driver operation ran. Consequently, for a case that contains such
  a step, run with a browser and a suite run in progress, and whose page opens, the step
  loop fails. When the handler's screenshot (directories, the page's screenshot into the
  file, the file read back) and both log files (the handler's and the one of the \<open>finally\<close>
  block) are written, the run is FAILED, carries that screenshot, is registered under the
  case id and appended to the suite run, and one more failure is counted. \<open>runTestCase\<close>
  returns only in that situation; when it throws instead, the registry and the runs of the
  suite run are as they were.
\<close>

theorem missing_value_fails:
  fixes d :: "'w driver"
  assumes "step_action step = A_type \<or> step_action step = A_select"
    and "resolveValue step = None"
  shows "executeStep_routes d step w =
           (Some (Error (''No value provided for '' @ action_name (step_action step)
                    @ '' action in step '' @ step_id step)), w) \<and>
         (\<forall>(tc :: TestCase) s sr w0.
            step \<in> set (steps tc) \<longrightarrow> browser s \<longrightarrow> currentSuiteRun s = Some sr \<longrightarrow>
            newPage d (env s) = (None, w0) \<longrightarrow>
            (\<exists>e tr1 w1.
               runSteps_routes d (tc_id tc) (steps tc) (freshRun d tc s) w0 = (Some e, tr1, w1) \<and>
               (\<forall>wa wb png w2 w3 w4 r.
                  mkdirs d w1 = (None, wa) \<longrightarrow>
                  screenshotFile d (tc_id tc, now d wa) wa = (None, wb) \<longrightarrow>
                  readFile d (tc_id tc, now d wa) wb = (Inr png, w2) \<longrightarrow>
                  saveTestLogs d (failedRun tr1 e (''data:image/png;base64,'' @ png)) w2
                    = (None, w3) \<longrightarrow>
                  r = finishedRun d (failedRun tr1 e (''data:image/png;base64,'' @ png)) w3 \<longrightarrow>
                  saveTestLogs d r w3 = (None, w4) \<longrightarrow>
                  status r = FAILED \<and>
                  screenshot r = Some (''data:image/png;base64,'' @ png) \<and>
                  runTestCase_routes d tc s =
                    (None, s\<lparr>env := w4,
                       testRuns := (testRuns s)(tc_id tc \<mapsto> r),
                       currentSuiteRun := Some
                         (sr\<lparr>failedTests := failedTests sr + 1,
                            suite_testRuns := suite_testRuns sr @ [r]\<rparr>)\<rparr>)) \<and>
               (fst (runTestCase_routes d tc s) = None \<longrightarrow>
                  (\<exists>wa wb png w2 w3 w4.
                     mkdirs d w1 = (None, wa) \<and>
                     screenshotFile d (tc_id tc, now d wa) wa = (None, wb) \<and>
                     readFile d (tc_id tc, now d wa) wb = (Inr png, w2) \<and>
                     saveTestLogs d (failedRun tr1 e (''data:image/png;base64,'' @ png)) w2
                       = (None, w3) \<and>
                     saveTestLogs d
                       (finishedRun d (failedRun tr1 e (''data:image/png;base64,'' @ png)) w3) w3
                       = (None, w4))) \<and>
               (fst (runTestCase_routes d tc s) \<noteq> None \<longrightarrow>
                  testRuns (snd (runTestCase_routes d tc s)) = testRuns s \<and>
                  map_option suite_testRuns (currentSuiteRun (snd (runTestCase_routes d tc s)))
                    = Some (suite_testRuns sr))))"
proof -
  have exec: "executeStep_routes d step w =
           (Some (Error (''No value provided for '' @ action_name (step_action step)
                    @ '' action in step '' @ step_id step)), w)"
    using assms by (rule executeStep_routes_no_value)
  have "case": "\<exists>e tr1 w1.
      runSteps_routes d (tc_id tc) (steps tc) (freshRun d tc s) w0 = (Some e, tr1, w1) \<and>
      (\<forall>wa wb png w2 w3 w4 r.
         mkdirs d w1 = (None, wa) \<longrightarrow>
         screenshotFile d (tc_id tc, now d wa) wa = (None, wb) \<longrightarrow>
         readFile d (tc_id tc, now d wa) wb = (Inr png, w2) \<longrightarrow>
         saveTestLogs d (failedRun tr1 e (''data:image/png;base64,'' @ png)) w2 = (None, w3) \<longrightarrow>
         r = finishedRun d (failedRun tr1 e (''data:image/png;base64,'' @ png)) w3 \<longrightarrow>
         saveTestLogs d r w3 = (None, w4) \<longrightarrow>
         status r = FAILED \<and>
         screenshot r = Some (''data:image/png;base64,'' @ png) \<and>
         runTestCase_routes d tc s =
           (None, s\<lparr>env := w4,
              testRuns := (testRuns s)(tc_id tc \<mapsto> r),
              currentSuiteRun := Some
                (sr\<lparr>failedTests := failedTests sr + 1,
                   suite_testRuns := suite_testRuns sr @ [r]\<rparr>)\<rparr>)) \<and>
      (fst (runTestCase_routes d tc s) = None \<longrightarrow>
         (\<exists>wa wb png w2 w3 w4.
            mkdirs d w1 = (None, wa) \<and>
            screenshotFile d (tc_id tc, now d wa) wa = (None, wb) \<and>
            readFile d (tc_id tc, now d wa) wb = (Inr png, w2) \<and>
            saveTestLogs d (failedRun tr1 e (''data:image/png;base64,'' @ png)) w2 = (None, w3) \<and>
            saveTestLogs d
              (finishedRun d (failedRun tr1 e (''data:image/png;base64,'' @ png)) w3) w3
              = (None, w4))) \<and>
      (fst (runTestCase_routes d tc s) \<noteq> None \<longrightarrow>
         testRuns (snd (runTestCase_routes d tc s)) = testRuns s \<and>
         map_option suite_testRuns (currentSuiteRun (snd (runTestCase_routes d tc s)))
           = Some (suite_testRuns sr))"
    if a: "step \<in> set (steps tc)" "browser s" "currentSuiteRun s = Some sr"
      "newPage d (env s) = (None, w0)"
    for tc :: TestCase and s :: "'w runner" and sr w0
  proof -
    from runSteps_routes_no_value [OF a(1) assms, of d "tc_id tc" "freshRun d tc s" w0]
    obtain e tr1 w1 where
      st: "runSteps_routes d (tc_id tc) (steps tc) (freshRun d tc s) w0 = (Some e, tr1, w1)"
      by blast
    note run = runTestCase_routes_failed_steps [OF a(2,3,4) st]
    have reg: "\<forall>wa wb png w2 w3 w4 r.
         mkdirs d w1 = (None, wa) \<longrightarrow>
         screenshotFile d (tc_id tc, now d wa) wa = (None, wb) \<longrightarrow>
         readFile d (tc_id tc, now d wa) wb = (Inr png, w2) \<longrightarrow>
         saveTestLogs d (failedRun tr1 e (''data:image/png;base64,'' @ png)) w2 = (None, w3) \<longrightarrow>
         r = finishedRun d (failedRun tr1 e (''data:image/png;base64,'' @ png)) w3 \<longrightarrow>
         saveTestLogs d r w3 = (None, w4) \<longrightarrow>
         status r = FAILED \<and>
         screenshot r = Some (''data:image/png;base64,'' @ png) \<and>
         runTestCase_routes d tc s =
           (None, s\<lparr>env := w4,
              testRuns := (testRuns s)(tc_id tc \<mapsto> r),
              currentSuiteRun := Some
                (sr\<lparr>failedTests := failedTests sr + 1,
                   suite_testRuns := suite_testRuns sr @ [r]\<rparr>)\<rparr>)"
    proof (intro allI impI)
      fix wa wb png w2 w3 w4 r
      assume h: "mkdirs d w1 = (None, wa)"
        "screenshotFile d (tc_id tc, now d wa) wa = (None, wb)"
        "readFile d (tc_id tc, now d wa) wb = (Inr png, w2)"
        "saveTestLogs d (failedRun tr1 e (''data:image/png;base64,'' @ png)) w2 = (None, w3)"
        "r = finishedRun d (failedRun tr1 e (''data:image/png;base64,'' @ png)) w3"
        "saveTestLogs d r w3 = (None, w4)"
      from h(1,2,3) have c: "captureScreenshot_routes d (tc_id tc) w1
          = (Inr (''data:image/png;base64,'' @ png), w2)"
        by (simp add: captureScreenshot_routes_Inr)
      have "status r = FAILED" "screenshot r = Some (''data:image/png;base64,'' @ png)"
        by (simp_all add: h(5) failedRun_def finishedRun_def)
      moreover from run c h(4,6) have "runTestCase_routes d tc s =
           (None, s\<lparr>env := w4,
              testRuns := (testRuns s)(tc_id tc \<mapsto> r),
              currentSuiteRun := Some
                (sr\<lparr>failedTests := failedTests sr + 1,
                   suite_testRuns := suite_testRuns sr @ [r]\<rparr>)\<rparr>)"
        by (simp add: h(5))
      ultimately show "status r = FAILED \<and>
         screenshot r = Some (''data:image/png;base64,'' @ png) \<and>
         runTestCase_routes d tc s =
           (None, s\<lparr>env := w4,
              testRuns := (testRuns s)(tc_id tc \<mapsto> r),
              currentSuiteRun := Some
                (sr\<lparr>failedTests := failedTests sr + 1,
                   suite_testRuns := suite_testRuns sr @ [r]\<rparr>)\<rparr>)"
        by simp
    qed
    have conv: "fst (runTestCase_routes d tc s) = None \<longrightarrow>
         (\<exists>wa wb png w2 w3 w4.
            mkdirs d w1 = (None, wa) \<and>
            screenshotFile d (tc_id tc, now d wa) wa = (None, wb) \<and>
            readFile d (tc_id tc, now d wa) wb = (Inr png, w2) \<and>
            saveTestLogs d (failedRun tr1 e (''data:image/png;base64,'' @ png)) w2 = (None, w3) \<and>
            saveTestLogs d
              (finishedRun d (failedRun tr1 e (''data:image/png;base64,'' @ png)) w3) w3
              = (None, w4))"
    proof
      assume ok: "fst (runTestCase_routes d tc s) = None"
      from ok run obtain shot w2 w3 w4 where
        c: "captureScreenshot_routes d (tc_id tc) w1 = (Inr shot, w2)"
        and l: "saveTestLogs d (failedRun tr1 e shot) w2 = (None, w3)"
          "saveTestLogs d (finishedRun d (failedRun tr1 e shot) w3) w3 = (None, w4)"
        by (auto split: prod.splits sum.splits option.splits)
      from c obtain wa wb png where
        "mkdirs d w1 = (None, wa)" "screenshotFile d (tc_id tc, now d wa) wa = (None, wb)"
        "readFile d (tc_id tc, now d wa) wb = (Inr png, w2)"
        "shot = ''data:image/png;base64,'' @ png"
        unfolding captureScreenshot_routes_Inr by blast
      with l show "\<exists>wa wb png w2 w3 w4.
            mkdirs d w1 = (None, wa) \<and>
            screenshotFile d (tc_id tc, now d wa) wa = (None, wb) \<and>
            readFile d (tc_id tc, now d wa) wb = (Inr png, w2) \<and>
            saveTestLogs d (failedRun tr1 e (''data:image/png;base64,'' @ png)) w2 = (None, w3) \<and>
            saveTestLogs d
              (finishedRun d (failedRun tr1 e (''data:image/png;base64,'' @ png)) w3) w3
              = (None, w4)"
        by blast
    qed
    have rej: "fst (runTestCase_routes d tc s) \<noteq> None \<longrightarrow>
         testRuns (snd (runTestCase_routes d tc s)) = testRuns s \<and>
         map_option suite_testRuns (currentSuiteRun (snd (runTestCase_routes d tc s)))
           = Some (suite_testRuns sr)"
      using a(3) unfolding run
      by (auto split: prod.splits sum.splits option.splits)
    show ?thesis
      by (rule exI [of _ e], rule exI [of _ tr1], rule exI [of _ w1])
        (intro conjI st reg conv rej)
  qed
  from exec "case" show ?thesis by (intro conjI allI impI)
qed


lemma scripted_artifacts:
  "mkdirs (scripted True True True True) w = (None, w @ [''mkdir''])"
  "screenshotFile (scripted True True True True) path w = (None, w @ [''screenshotFile''])"
  "readFile (scripted True True True True) path w = (Inr ''iVBORw0KGgo='', w @ [''readFile''])"
  "saveTestLogs (scripted True True True True) r w = (None, w @ [''mkdir'', ''writeFile''])"
  by (simp_all add: saveTestLogs_def scripted_def)

text \<open>
  The theorem at \<open>caseT\<close> on the scripted driver: the \<open>type\<close> step without value fails
  without a call to the driver, and the case is registered FAILED with the screenshot that
  was read back from the file, and counted as failed.
\<close>

theorem missing_value_fails_witness:
  "executeStep_routes (scripted True True True True) (aStep ''t2'' A_type (css ''#name'') None)
     [''newPage'', ''goto'']
     = (Some (Error ''No value provided for type action in step t2''), [''newPage'', ''goto'']) \<and>
   (\<exists>s' r. runTestCase_routes (scripted True True True True) caseT ready = (None, s') \<and>
      testRuns s' ''T'' = Some r \<and> status r = FAILED \<and>
      screenshot r = Some ''data:image/png;base64,iVBORw0KGgo='' \<and>
      map_option failedTests (currentSuiteRun s') = Some 1)"
proof -
  let ?d = "scripted True True True True"
  let ?st = "aStep ''t2'' A_type (css ''#name'') None"
  have act: "step_action ?st = A_type \<or> step_action ?st = A_select" by (simp add: aStep_def)
  have nov: "resolveValue ?st = None"
    by (simp add: resolveValue_def getValueFromTestData_def aStep_def)
  note t = missing_value_fails [OF act nov, of ?d]
  have 1: "executeStep_routes ?d ?st [''newPage'', ''goto'']
     = (Some (Error ''No value provided for type action in step t2''), [''newPage'', ''goto''])"
    using t [of "[''newPage'', ''goto'']"] by (simp add: aStep_def)
  have mem: "?st \<in> set (steps caseT)" by (simp add: caseT_def)
  have b: "browser ready" by (simp add: ready_def startSuiteRun_def idle_def)
  obtain sr where sr: "currentSuiteRun ready = Some sr" and f0: "failedTests sr = 0"
    by (simp add: ready_def startSuiteRun_def)
  have np: "newPage ?d (env ready) = (None, [''newPage''])"
    by (simp add: ready_def startSuiteRun_def idle_def scripted_def)
  from t [of "[]", THEN conjunct2, rule_format, OF mem b sr np] obtain e tr1 w1 where
    reg: "\<forall>wa wb png w2 w3 w4 r.
         mkdirs ?d w1 = (None, wa) \<longrightarrow>
         screenshotFile ?d (tc_id caseT, now ?d wa) wa = (None, wb) \<longrightarrow>
         readFile ?d (tc_id caseT, now ?d wa) wb = (Inr png, w2) \<longrightarrow>
         saveTestLogs ?d (failedRun tr1 e (''data:image/png;base64,'' @ png)) w2 = (None, w3) \<longrightarrow>
         r = finishedRun ?d (failedRun tr1 e (''data:image/png;base64,'' @ png)) w3 \<longrightarrow>
         saveTestLogs ?d r w3 = (None, w4) \<longrightarrow>
         status r = FAILED \<and>
         screenshot r = Some (''data:image/png;base64,'' @ png) \<and>
         runTestCase_routes ?d caseT ready =
           (None, ready\<lparr>env := w4,
              testRuns := (testRuns ready)(tc_id caseT \<mapsto> r),
              currentSuiteRun := Some
                (sr\<lparr>failedTests := failedTests sr + 1,
                   suite_testRuns := suite_testRuns sr @ [r]\<rparr>)\<rparr>)"
    by blast
  from reg [rule_format, OF scripted_artifacts(1) scripted_artifacts(2) scripted_artifacts(3)
      scripted_artifacts(4) refl scripted_artifacts(4)]
  have "\<exists>s' r. runTestCase_routes ?d caseT ready = (None, s') \<and>
      testRuns s' ''T'' = Some r \<and> status r = FAILED \<and>
      screenshot r = Some ''data:image/png;base64,iVBORw0KGgo='' \<and>
      map_option failedTests (currentSuiteRun s') = Some 1"
    by (simp add: caseT_def f0)
  with 1 show ?thesis by (rule conjI)
qed

text \<open>
  C6 as stated lets every case with such a step end FAILED with a screenshot. When the
  page cannot take the screenshot, \<open>runTestCase\<close> of \<open>caseT\<close> throws the screenshot's error:
  no file is read back, no run is registered for the case and no failure is counted. When
  the screenshot works and the log file cannot be written, it throws that error, and again
  the case is neither registered nor counted.
\<close>

theorem missing_value_not_registered:
  "resolveValue (aStep ''t2'' A_type (css ''#name'') None) = None \<and>
   aStep ''t2'' A_type (css ''#name'') None \<in> set (steps caseT) \<and>
   fst (runTestCase_routes (scripted True True False True) caseT ready)
     = Some (Error ''screenshot failed'') \<and>
   env (snd (runTestCase_routes (scripted True True False True) caseT ready))
     = [''newPage'', ''goto'', ''mkdir'', ''screenshotFile'', ''mkdir'', ''screenshotFile'',
        ''mkdir'', ''writeFile''] \<and>
   testRuns (snd (runTestCase_routes (scripted True True False True) caseT ready)) ''T'' = None \<and>
   map_option failedTests
     (currentSuiteRun (snd (runTestCase_routes (scripted True True False True) caseT ready)))
     = Some 0 \<and>
   fst (runTestCase_routes (scripted True True True False) caseT ready)
     = Some (Error ''EACCES'') \<and>
   testRuns (snd (runTestCase_routes (scripted True True True False) caseT ready)) ''T'' = None \<and>
   map_option failedTests
     (currentSuiteRun (snd (runTestCase_routes (scripted True True True False) caseT ready)))
     = Some 0"
  by (simp add: runTestCase_routes_def executeTestCase_routes_def tryTestCase_routes_def
        catchTestCase_routes_def finallyTestCase_routes_def registerRun_def
        updateSuiteRunStats_def executeStep_routes_def captureScreenshot_routes_def
        saveTestLogs_def resolveValue_def getValueFromTestData_def freshRun_def
        startSuiteRun_def scripted_def aStep_def css_def caseT_def ready_def idle_def Let_def)

text \<open>
  The executor of services/runTScrawler.ts has no such test: a \<open>type\<close> step goes to
  \<open>page.fill\<close> with whatever value it has, and \<open>select\<close> is an unsupported action.
\<close>

lemma executeStep_type_unguarded:
  "step_action step = A_type \<Longrightarrow> buildSelector (step_selector step) = Inr selector \<Longrightarrow>
   executeStep d step w = fill d selector (step_value step) w"
  by (simp add: executeStep_def)

section \<open>Unique selectors\<close>

lemma splitWs_not_empty: "splitWs cur inSep s \<noteq> []"
  by (induction s arbitrary: cur inSep) auto

lemma join_snoc2: "join sep (xs @ [a, b]) = join sep (xs @ [a @ sep @ b])"
  by (induction sep xs rule: join.induct) auto

lemma join_not_empty: "xs \<noteq> [] \<Longrightarrow> \<forall>x \<in> set xs. x \<noteq> [] \<Longrightarrow> join sep xs \<noteq> []"
  by (induction sep xs rule: join.induct) auto

lemma segment_not_empty: "segment el \<noteq> []"
  by (simp add: segment_def)

lemma positionalPath_join:
  "positionalPath el path =
     join '' > '' (map segment (rev (pathElements el)) @ (if path \<noteq> [] then [path] else []))"
proof (induction el path rule: positionalPath.induct)
  case (1 i t n c b prev path)
  then show ?case by simp
next
  case (2 i t n c b prev parent path)
  show ?case
  proof (cases b)
    case True
    then show ?thesis by simp
  next
    case False
    let ?el = "Element i t n c b prev (Some parent)"
    let ?acc = "segment ?el @ (if path \<noteq> [] then '' > '' @ path else [])"
    have ne: "?acc \<noteq> []" using segment_not_empty [of ?el] by simp
    from 2 [OF False] ne
    have "positionalPath parent ?acc = join '' > '' (map segment (rev (pathElements parent)) @ [?acc])"
      by simp
    also have "\<dots> = join '' > '' (map segment (rev (pathElements ?el))
                         @ (if path \<noteq> [] then [path] else []))"
      using False join_snoc2 [of "'' > ''" "map segment (rev (pathElements parent))" "segment ?el" path]
      by simp
    finally show ?thesis using False by simp
  qed
qed

lemma positionalSelector_path:
  "positionalSelector el =
     (if pathElements el = [] then toLowerCase (tagName el)
      else ''body > '' @ join '' > '' (map segment (rev (pathElements el))))"
proof (cases "pathElements el = []")
  case True
  then show ?thesis by (simp add: positionalSelector_def positionalPath_join)
next
  case False
  then have "join '' > '' (map segment (rev (pathElements el))) \<noteq> []"
    by (intro join_not_empty) (auto simp: segment_not_empty)
  with False show ?thesis by (simp add: positionalSelector_def positionalPath_join)
qed

text \<open>
  C9, as amended. When the evaluation in the page succeeds, the first rule that applies
  gives the selector: the id after \<open>#\<close> if the id is not empty; else the lower-case tag
  with the \<open>name\<close> attribute in brackets if that attribute is present and not empty; else
  the tag with the pieces of the class string joined by dots if the class is a non-empty
  string; else the positional path, \<open>body\<close> followed by one \<open>tag:nth-of-type(index)\<close>
  segment for each element from the outermost ancestor below the body down to the element,
  or the bare tag when the element is the body or has no parent. When the evaluation
  throws, the element is evaluated a second time for its tag name: the result is the bare
  lower-case tag if that succeeds, and the second error is thrown if it does not.
\<close>

theorem generateUniqueSelector_rules:
  \<open>(\<forall>el w1. evaluate w = (Inr el, w1) \<longrightarrow>
      generateUniqueSelector evaluate w = (Inr (selectorInPage el), w1) \<and>
      (el_id el \<noteq> [] \<longrightarrow> selectorInPage el = ''#'' @ el_id el) \<and>
      (el_id el = [] \<longrightarrow>
         (\<forall>n. name_attr el = Some n \<longrightarrow> n \<noteq> [] \<longrightarrow>
            selectorInPage el = toLowerCase (tagName el) @ ''[name="'' @ n @ ''"]'')) \<and>
      (el_id el = [] \<longrightarrow> name_attr el = None \<or> name_attr el = Some [] \<longrightarrow>
         (\<forall>cls. className el = ClassString cls \<longrightarrow> cls \<noteq> [] \<longrightarrow>
            selectorInPage el =
              toLowerCase (tagName el) @ ''.'' @ join ''.'' (splitWs [] False (trim cls)))) \<and>
      (el_id el = [] \<longrightarrow> name_attr el = None \<or> name_attr el = Some [] \<longrightarrow>
         className el = ClassString [] \<or> className el = ClassObject \<longrightarrow>
         selectorInPage el =
           (if pathElements el = [] then toLowerCase (tagName el)
            else ''body > '' @ join '' > '' (map segment (rev (pathElements el)))))) \<and>
   (\<forall>e w1. evaluate w = (Inl e, w1) \<longrightarrow>
      (\<forall>el w2. evaluate w1 = (Inr el, w2) \<longrightarrow>
         generateUniqueSelector evaluate w = (Inr (toLowerCase (tagName el)), w2)) \<and>
      (\<forall>e2 w2. evaluate w1 = (Inl e2, w2) \<longrightarrow>
         generateUniqueSelector evaluate w = (Inl e2, w2)))\<close>
proof -
  have ok: \<open>evaluate w = (Inr el, w1) \<longrightarrow>
      generateUniqueSelector evaluate w = (Inr (selectorInPage el), w1) \<and>
      (el_id el \<noteq> [] \<longrightarrow> selectorInPage el = ''#'' @ el_id el) \<and>
      (el_id el = [] \<longrightarrow>
         (\<forall>n. name_attr el = Some n \<longrightarrow> n \<noteq> [] \<longrightarrow>
            selectorInPage el = toLowerCase (tagName el) @ ''[name="'' @ n @ ''"]'')) \<and>
      (el_id el = [] \<longrightarrow> name_attr el = None \<or> name_attr el = Some [] \<longrightarrow>
         (\<forall>cls. className el = ClassString cls \<longrightarrow> cls \<noteq> [] \<longrightarrow>
            selectorInPage el =
              toLowerCase (tagName el) @ ''.'' @ join ''.'' (splitWs [] False (trim cls)))) \<and>
      (el_id el = [] \<longrightarrow> name_attr el = None \<or> name_attr el = Some [] \<longrightarrow>
         className el = ClassString [] \<or> className el = ClassObject \<longrightarrow>
         selectorInPage el =
           (if pathElements el = [] then toLowerCase (tagName el)
            else ''body > '' @ join '' > '' (map segment (rev (pathElements el)))))\<close>
    for el w1
  proof (intro impI conjI allI)
    assume "evaluate w = (Inr el, w1)"
    then show "generateUniqueSelector evaluate w = (Inr (selectorInPage el), w1)"
      by (simp add: generateUniqueSelector_def)
  next
    assume "el_id el \<noteq> []"
    then show "selectorInPage el = ''#'' @ el_id el" by (simp add: selectorInPage_def)
  next
    fix n
    assume "el_id el = []" "name_attr el = Some n" "n \<noteq> []"
    then show \<open>selectorInPage el = toLowerCase (tagName el) @ ''[name="'' @ n @ ''"]''\<close>
      by (simp add: selectorInPage_def show_null_def)
  next
    fix cls
    assume "el_id el = []" "name_attr el = None \<or> name_attr el = Some []"
      "className el = ClassString cls" "cls \<noteq> []"
    then show "selectorInPage el =
              toLowerCase (tagName el) @ ''.'' @ join ''.'' (splitWs [] False (trim cls))"
      using splitWs_not_empty [of "[]" False "trim cls"]
      by (auto simp: selectorInPage_def Let_def)
  next
    assume "el_id el = []" "name_attr el = None \<or> name_attr el = Some []"
      "className el = ClassString [] \<or> className el = ClassObject"
    then show "selectorInPage el =
           (if pathElements el = [] then toLowerCase (tagName el)
            else ''body > '' @ join '' > '' (map segment (rev (pathElements el))))"
      by (auto simp: selectorInPage_def Let_def positionalSelector_path)
  qed
  have failed: "evaluate w = (Inl e, w1) \<longrightarrow>
      (\<forall>el w2. evaluate w1 = (Inr el, w2) \<longrightarrow>
         generateUniqueSelector evaluate w = (Inr (toLowerCase (tagName el)), w2)) \<and>
      (\<forall>e2 w2. evaluate w1 = (Inl e2, w2) \<longrightarrow>
         generateUniqueSelector evaluate w = (Inl e2, w2))" for e w1
    by (simp add: generateUniqueSelector_def)
  from ok failed show ?thesis by blast
qed


lemmas element_eval =
  generateUniqueSelector_def selectorInPage_def positionalSelector_def segment_def
  nthOfType_def toLowerCase_def lowerChar_def trim_def isWhitespace_def show_null_def
  string_of_nat.simps htmlEl_def bodyEl_def divEl_def inputEl_def emptyNameEl_def loginEl_def
  evaluateOk_def evaluateFails_def evaluateSecond_def Let_def

lemma example_selectors:
  "selectorInPage inputEl = ''body > div:nth-of-type(1) > input:nth-of-type(2)''"
  "selectorInPage bodyEl = ''body''"
  "pathElements inputEl = [inputEl, divEl]"
  by (simp_all add: element_eval)

text \<open>
  The theorem at the form with an id (a name and a class too: the id wins), at the plain
  input (positional path), and at an evaluation that throws the first time only.
\<close>

theorem generateUniqueSelector_rules_witness:
  "generateUniqueSelector (evaluateOk loginEl) 0 = (Inr ''#login'', 1) \<and>
   generateUniqueSelector (evaluateOk inputEl) 0
     = (Inr ''body > div:nth-of-type(1) > input:nth-of-type(2)'', 1) \<and>
   generateUniqueSelector (evaluateSecond inputEl) 0 = (Inr ''input'', 2)"
proof -
  have e1: "evaluateOk loginEl 0 = (Inr loginEl, 1)" by (simp add: evaluateOk_def)
  have e2: "evaluateOk inputEl 0 = (Inr inputEl, 1)" by (simp add: evaluateOk_def)
  have e3: "evaluateSecond inputEl 0 = (Inl (Error ''Execution context was destroyed''), 1)"
    "evaluateSecond inputEl 1 = (Inr inputEl, 2)"
    by (simp_all add: evaluateSecond_def)
  note r1 = generateUniqueSelector_rules [of "evaluateOk loginEl" 0, THEN conjunct1,
      rule_format, OF e1]
  note r2 = generateUniqueSelector_rules [of "evaluateOk inputEl" 0, THEN conjunct1,
      rule_format, OF e2]
  note r3 = generateUniqueSelector_rules [of "evaluateSecond inputEl" 0, THEN conjunct2,
      rule_format, OF e3(1), THEN conjunct1, rule_format, OF e3(2)]
  have id: "el_id loginEl \<noteq> []" by (simp add: loginEl_def)
  from r1 id have 1: "generateUniqueSelector (evaluateOk loginEl) 0 = (Inr ''#login'', 1)"
    by (simp add: loginEl_def)
  have plain: "el_id inputEl = []" "name_attr inputEl = None \<or> name_attr inputEl = Some []"
    "className inputEl = ClassString [] \<or> className inputEl = ClassObject"
    by (simp_all add: inputEl_def)
  from r2 plain have "generateUniqueSelector (evaluateOk inputEl) 0
     = (Inr (if pathElements inputEl = [] then toLowerCase (tagName inputEl)
             else ''body > '' @ join '' > '' (map segment (rev (pathElements inputEl)))), 1)"
    by simp
  then have 2: "generateUniqueSelector (evaluateOk inputEl) 0
     = (Inr ''body > div:nth-of-type(1) > input:nth-of-type(2)'', 1)"
    by (simp add: example_selectors(3)) (simp add: element_eval)
  from r3 have 3: "generateUniqueSelector (evaluateSecond inputEl) 0 = (Inr ''input'', 2)"
    by (simp add: inputEl_def toLowerCase_def lowerChar_def)
  from 1 2 3 show ?thesis by blast
qed

text \<open>
  C9 as stated never throws and applies the name rule whenever a name attribute is present.
  When the evaluation keeps throwing, the generator throws after the second attempt; and
  an input whose \<open>name\<close> attribute is present and empty gets its selector from the class
  rule.
\<close>

theorem generateUniqueSelector_throws:
  \<open>generateUniqueSelector evaluateFails 0
     = (Inl (Error ''Execution context was destroyed''), 2) \<and>
   name_attr emptyNameEl = Some [] \<and>
   generateUniqueSelector (evaluateOk emptyNameEl) 0 = (Inr ''input.field.wide'', 1) \<and>
   ''input.field.wide'' \<noteq> ''input[name=""]''\<close>
  by (simp add: element_eval)

end
